theory Spec2Isabelle
  imports Main "HOL-Library.Word" "HOL-Library.Sublist" "HOL-Library.Multiset"
begin

section \<open>The provenance ledger of \<open>backend/src/services/solana.js\<close>\<close>

text \<open>
  The class \<open>SolanaService\<close> keeps two in-memory structures: \<open>productHistory\<close>, a
  \<open>Map\<close> from product ids to arrays of transaction records, and \<open>allTransactions\<close>, the
  array of every record. Its methods are embedded below as functions on an explicit
  store. Logging calls (\<open>logger.info\<close>, \<open>logger.warn\<close>) have no effect on the store or
  on a result and are left out.
\<close>

subsection \<open>Thrown values\<close>

text \<open>
  The service throws \<open>new Error(message)\<close>; the JavaScript runtime itself throws a
  \<open>SyntaxError\<close> (from \<open>BigInt\<close> on a malformed literal) or a \<open>TypeError\<close> (reading a
  property of \<open>undefined\<close>). A method that throws returns \<open>Inl\<close> of the thrown value.
\<close>

datatype error = Error string | SyntaxError | TypeError

subsection \<open>Base58 encoding (\<open>encodeBase58\<close>)\<close>

type_synonym byte = "8 word"

definition ALPHABET :: string where
  "ALPHABET = ''123456789ABCDEFGHJKLMNPQRSTUVWXYZabcdefghijkmnopqrstuvwxyz''"

text \<open>\<open>bytes.toString('hex')\<close>: two lower-case hexadecimal digits per byte.\<close>

definition hexdigit :: "nat \<Rightarrow> char" where
  "hexdigit n = ''0123456789abcdef'' ! n"

definition toString_hex :: "byte list \<Rightarrow> string" where
  "toString_hex bytes =
     concat (map (\<lambda>b. [hexdigit (unat b div 16), hexdigit (unat b mod 16)]) bytes)"

text \<open>
  \<open>BigInt('0x' + hex)\<close>: the value of a hexadecimal literal. The literal needs at least
  one digit, so \<open>BigInt('0x')\<close> throws a \<open>SyntaxError\<close>, as does a character that is
  not a hexadecimal digit. The value is never negative and is modelled as a \<open>nat\<close>, on
  which \<open>div\<close> and \<open>mod\<close> are BigInt's \<open>/\<close> and \<open>%\<close>.
\<close>

definition hexval :: "char \<Rightarrow> nat option" where
  "hexval c =
     (let n = (of_char c :: nat) in
      if 48 \<le> n \<and> n \<le> 57 then Some (n - 48)
      else if 97 \<le> n \<and> n \<le> 102 then Some (n - 87)
      else if 65 \<le> n \<and> n \<le> 70 then Some (n - 55)
      else None)"

fun parse_hex :: "string \<Rightarrow> nat \<Rightarrow> nat option" where
  "parse_hex [] acc = Some acc"
| "parse_hex (c # cs) acc =
     (case hexval c of None \<Rightarrow> None | Some d \<Rightarrow> parse_hex cs (16 * acc + d))"

definition BigInt_0x :: "string \<Rightarrow> error + nat" where
  "BigInt_0x hex =
     (if hex = [] then Inl SyntaxError
      else case parse_hex hex 0 of None \<Rightarrow> Inl SyntaxError | Some n \<Rightarrow> Inr n)"

text \<open>
  The \<open>while (num > 0)\<close> loop: each round prepends the alphabet character of the
  remainder and divides by 58.
\<close>

function encode_loop :: "nat \<Rightarrow> string \<Rightarrow> string" where
  "encode_loop num encoded =
     (if num > 0
      then encode_loop (num div 58) (ALPHABET ! (num mod 58) # encoded)
      else encoded)"
  by pat_completeness auto
termination
  by (relation "measure (\<lambda>(num, encoded). num)") auto

declare encode_loop.simps [simp del]

text \<open>
  The \<open>for (let i = 0; i < bytes.length && bytes[i] === 0; i++)\<close> loop: one \<open>'1'\<close> is
  prepended per leading zero byte.
\<close>

function zeros_loop :: "nat \<Rightarrow> byte list \<Rightarrow> string \<Rightarrow> string" where
  "zeros_loop i bytes encoded =
     (if i < length bytes \<and> bytes ! i = 0
      then zeros_loop (i + 1) bytes (CHR ''1'' # encoded)
      else encoded)"
  by pat_completeness auto
termination
  by (relation "measure (\<lambda>(i, bytes, encoded). length bytes - i)") auto

declare zeros_loop.simps [simp del]

definition encodeBase58 :: "byte list \<Rightarrow> error + string" where
  "encodeBase58 bytes =
     (case BigInt_0x (toString_hex bytes) of
        Inl e \<Rightarrow> Inl e
      | Inr num \<Rightarrow> Inr (zeros_loop 0 bytes (encode_loop num [])))"

text \<open>
  The encoding as the specification words it: the buffer read as an unsigned base-256
  integer, its base-58 digits from the most significant one, and one zero symbol in
  front per leading zero byte.
\<close>

definition spec_value :: "byte list \<Rightarrow> nat" where
  "spec_value bytes = foldl (\<lambda>v b. v * 256 + unat b) 0 bytes"

function spec_digits :: "nat \<Rightarrow> string" where
  "spec_digits n = (if n = 0 then [] else spec_digits (n div 58) @ [ALPHABET ! (n mod 58)])"
  by pat_completeness auto
termination
  by (relation "measure id") auto

declare spec_digits.simps [simp del]

definition spec_encodeBase58 :: "byte list \<Rightarrow> string" where
  "spec_encodeBase58 bytes =
     replicate (length (takeWhile (\<lambda>b. b = 0) bytes)) (CHR ''1'') @ spec_digits (spec_value bytes)"

subsection \<open>Transaction records and the store\<close>

datatype tx_type = Manufacture | Transfer | Repair

text \<open>
  A transaction record is an object literal of \<open>createProduct\<close>, \<open>transferOwnership\<close> or
  \<open>recordRepair\<close>. A field the literal does not have (\<open>previousOwner\<close> outside a
  transfer, \<open>metadata\<close> in a transfer), or one that is \<open>undefined\<close>, is \<open>None\<close>.
  Owners, product ids and signatures are strings; a timestamp is the integer
  \<open>Date.now()\<close> returned. A string is the list of its UTF-16 code units, one \<open>char\<close>
  each: the model covers the strings whose code units are all below 256 (ASCII and
  Latin-1), as base-58 keys and the service's own messages are.
\<close>

record transaction =
  type :: tx_type
  timestamp :: int
  owner :: string
  previousOwner :: "string option"
  metadata :: "string option"
  productId :: string
  signature :: string

text \<open>
  JavaScript arrays are objects that several variables may refer to: \<open>history.push\<close>
  changes the array that \<open>productHistory\<close> holds, \<open>reverse\<close> and \<open>sort\<close> work in place,
  \<open>slice\<close>, \<open>filter\<close> and the spread \<open>[...xs]\<close> build a new array. The store therefore
  keeps the arrays in a heap, by address; \<open>fresh\<close> is the next address never used.
  The transaction records themselves are never changed once built and are values.
\<close>

type_synonym addr = nat

record store =
  heap :: "addr \<Rightarrow> transaction list"
  fresh :: addr
  productHistory :: "string \<Rightarrow> addr option"
  allTransactions :: addr

text \<open>The constructor: an empty \<open>Map\<close> and an empty array.\<close>

definition SolanaService :: store where
  "SolanaService =
     \<lparr>heap = (\<lambda>a. []), fresh = 1, productHistory = Map.empty, allTransactions = 0\<rparr>"

definition new_array :: "transaction list \<Rightarrow> store \<Rightarrow> addr \<times> store" where
  "new_array xs s = (fresh s, s\<lparr>heap := (heap s)(fresh s := xs), fresh := fresh s + 1\<rparr>)"

definition array_push :: "addr \<Rightarrow> transaction \<Rightarrow> store \<Rightarrow> store" where
  "array_push a x s = s\<lparr>heap := (heap s)(a := heap s a @ [x])\<rparr>"

text \<open>
  \<open>xs.slice(start)\<close>: a negative \<open>start\<close> counts from the end and stops at the first
  element; \<open>-0\<close> is \<open>0\<close>.
\<close>

definition js_slice :: "'a list \<Rightarrow> int \<Rightarrow> 'a list" where
  "js_slice xs start =
     (let len = int (length xs);
          k = (if start < 0 then max (len + start) 0 else min start len)
      in drop (nat k) xs)"

definition array_slice :: "addr \<Rightarrow> int \<Rightarrow> store \<Rightarrow> addr \<times> store" where
  "array_slice a start s = new_array (js_slice (heap s a) start) s"

definition array_reverse :: "addr \<Rightarrow> store \<Rightarrow> addr \<times> store" where
  "array_reverse a s = (a, s\<lparr>heap := (heap s)(a := rev (heap s a))\<rparr>)"

definition array_filter :: "(transaction \<Rightarrow> bool) \<Rightarrow> addr \<Rightarrow> store \<Rightarrow> addr \<times> store" where
  "array_filter P a s = new_array (filter P (heap s a)) s"

text \<open>
  \<open>xs.sort(compare)\<close> sorts in place and is stable (ECMAScript 2019): elements that
  compare equal keep their order. Insertion from the right, each element put before
  the first one it does not come after, is such a sort.
\<close>

fun insort_cmp :: "('a \<Rightarrow> 'a \<Rightarrow> int) \<Rightarrow> 'a \<Rightarrow> 'a list \<Rightarrow> 'a list" where
  "insort_cmp cmp x [] = [x]"
| "insort_cmp cmp x (y # ys) =
     (if cmp x y \<le> 0 then x # y # ys else y # insort_cmp cmp x ys)"

definition sort_cmp :: "('a \<Rightarrow> 'a \<Rightarrow> int) \<Rightarrow> 'a list \<Rightarrow> 'a list" where
  "sort_cmp cmp xs = foldr (insort_cmp cmp) xs []"

definition array_sort :: "(transaction \<Rightarrow> transaction \<Rightarrow> int) \<Rightarrow> addr \<Rightarrow> store \<Rightarrow> store" where
  "array_sort cmp a s = s\<lparr>heap := (heap s)(a := sort_cmp cmp (heap s a))\<rparr>"

text \<open>What the specification calls the GlobalLog and a ProductChain.\<close>

definition GlobalLog :: "store \<Rightarrow> transaction list" where
  "GlobalLog s = heap s (allTransactions s)"

definition ProductChain :: "store \<Rightarrow> string \<Rightarrow> transaction list option" where
  "ProductChain s p = map_option (heap s) (productHistory s p)"

subsection \<open>The world outside\<close>

text \<open>
  What one call reads from outside the process. The \<open>try\<close> block of
  \<open>generateTransactionSignature\<close> calls the \<open>@solana/web3.js\<close> library five times, and
  each call may throw: building the transaction (\<open>new Transaction().add(\<dots>)\<close>),
  \<open>getLatestBlockhash\<close>, \<open>transaction.sign\<close>, \<open>transaction.serialize\<close> and
  \<open>sendRawTransaction\<close>. The outcome of each is \<open>Inl\<close> of the message of the \<open>Error\<close>
  thrown, or \<open>Inr\<close> of the value returned; signing and serialising depend on the
  block hash fetched (the transaction's \<open>recentBlockhash\<close>), sending on the serialised
  bytes. The rest is the bytes \<open>crypto.randomBytes\<close> draws, the clock, and the public
  key of the key pair \<open>createProduct\<close> generates for its reply.
\<close>

record env =
  Transaction_add :: "string + unit"
  getLatestBlockhash :: "string + string"
  Transaction_sign :: "string \<Rightarrow> string + unit"
  Transaction_serialize :: "string \<Rightarrow> string + byte list"
  sendRawTransaction :: "byte list \<Rightarrow> string + string"
  entropy :: "nat \<Rightarrow> byte"
  Date_now :: int
  Keypair_generate :: string

definition randomBytes :: "env \<Rightarrow> nat \<Rightarrow> byte list" where
  "randomBytes e n = map (entropy e) [0..<n]"

subsection \<open>Minting a signature (\<open>generateTransactionSignature\<close>)\<close>

text \<open>
  The \<open>try\<close> block, statement by statement: it ends at the first statement that
  throws, with the message of the error, or returns the signature
  \<open>sendRawTransaction\<close> gives.
\<close>

definition try_block :: "env \<Rightarrow> string + string" where
  "try_block e =
     (case Transaction_add e of
        Inl message \<Rightarrow> Inl message
      | Inr built \<Rightarrow>
          (case getLatestBlockhash e of
             Inl message \<Rightarrow> Inl message
           | Inr blockhash \<Rightarrow>
               (case Transaction_sign e blockhash of
                  Inl message \<Rightarrow> Inl message
                | Inr ok \<Rightarrow>
                    (case Transaction_serialize e blockhash of
                       Inl message \<Rightarrow> Inl message
                     | Inr raw \<Rightarrow> sendRawTransaction e raw))))"

text \<open>
  An error thrown anywhere in the \<open>try\<close> block reaches the \<open>catch\<close> block, which
  encodes 64 random bytes. An error thrown inside the \<open>catch\<close> block itself would
  leave the method.
\<close>

definition generateTransactionSignature :: "env \<Rightarrow> string \<Rightarrow> error + string" where
  "generateTransactionSignature e description =
     (case try_block e of
        Inr sig \<Rightarrow> Inr sig
      | Inl message \<Rightarrow> encodeBase58 (randomBytes e 64))"

subsection \<open>Mutations\<close>

text \<open>
  A method returns its result, or the value it threw, together with the store it
  leaves. The reply of a successful mutation is the object literal \<open>{signature, account}\<close>
  (\<open>createProduct\<close>) or \<open>{signature}\<close>.
\<close>

record receipt =
  receipt_signature :: string
  receipt_account :: "string option"

text \<open>
  A mutation is an \<open>async\<close> method with one suspension point, its
  \<open>await this.generateTransactionSignature(\<dots>)\<close>. It runs from its start to that
  \<open>await\<close> without interruption (\<open>_before_await\<close>: the checks, which only read the
  store) and, once the mint has settled, from there to its end without interruption
  (\<open>_after_await\<close>: the record, the pushes, the reply). Other calls may run while it is
  suspended. The local variables live across the suspension: \<open>history\<close>, the array
  found before the \<open>await\<close>, is the array pushed onto after it. The method under
  its own name is the call with nothing else run in between.
\<close>

definition createProduct_before_await :: "string \<Rightarrow> store \<Rightarrow> error + unit" where
  "createProduct_before_await pid s =
     (if productHistory s pid \<noteq> None then Inl (Error ''Product ID already exists'')
      else Inr ())"

definition createProduct_after_await ::
  "env \<Rightarrow> string \<Rightarrow> string option \<Rightarrow> string \<Rightarrow> store \<Rightarrow> (error + receipt) \<times> store" where
  "createProduct_after_await e pid meta manufacturerPublicKey s =
     (case generateTransactionSignature e (''Create product: '' @ pid) of
        Inl err \<Rightarrow> (Inl err, s)
      | Inr sig \<Rightarrow>
          let tx = \<lparr>type = Manufacture, timestamp = Date_now e,
                    owner = manufacturerPublicKey, previousOwner = None,
                    metadata = Some (case meta of None \<Rightarrow> [] | Some m \<Rightarrow> m),
                    productId = pid, signature = sig\<rparr>;
              (a, s1) = new_array [tx] s;
              s2 = s1\<lparr>productHistory := (productHistory s1)(pid \<mapsto> a)\<rparr>;
              s3 = array_push (allTransactions s2) tx s2
          in (Inr \<lparr>receipt_signature = sig, receipt_account = Some (Keypair_generate e)\<rparr>, s3))"

definition createProduct ::
  "env \<Rightarrow> string \<Rightarrow> string option \<Rightarrow> string \<Rightarrow> store \<Rightarrow> (error + receipt) \<times> store" where
  "createProduct e pid meta manufacturerPublicKey s =
     (case createProduct_before_await pid s of
        Inl err \<Rightarrow> (Inl err, s)
      | Inr u \<Rightarrow> createProduct_after_await e pid meta manufacturerPublicKey s)"

text \<open>
  \<open>history[history.length - 1]\<close> of an empty array is \<open>undefined\<close>, and reading its
  \<open>owner\<close> throws a \<open>TypeError\<close>. The checks of \<open>transferOwnership\<close> and \<open>recordRepair\<close>
  are the same statements; they return the \<open>history\<close> array.
\<close>

definition transferOwnership_before_await :: "string \<Rightarrow> string \<Rightarrow> store \<Rightarrow> error + addr" where
  "transferOwnership_before_await pid currentOwner s =
     (case productHistory s pid of
        None \<Rightarrow> Inl (Error ''Product ID does not exist'')
      | Some history \<Rightarrow>
         (if heap s history = [] then Inl TypeError
          else
            let latestRecord = last (heap s history) in
            if owner latestRecord \<noteq> currentOwner
            then Inl (Error (''Ownership verification failed. Current owner is ''
                        @ owner latestRecord @ '', not '' @ currentOwner))
            else Inr history))"

definition transferOwnership_after_await ::
  "env \<Rightarrow> string \<Rightarrow> string \<Rightarrow> string \<Rightarrow> addr \<Rightarrow> store \<Rightarrow> (error + receipt) \<times> store" where
  "transferOwnership_after_await e pid currentOwner nextOwner history s =
     (case generateTransactionSignature e
             (''Transfer product: '' @ pid @ '' from '' @ take 8 currentOwner
                @ '' to '' @ take 8 nextOwner) of
        Inl err \<Rightarrow> (Inl err, s)
      | Inr sig \<Rightarrow>
          let tx = \<lparr>type = Transfer, timestamp = Date_now e, owner = nextOwner,
                    previousOwner = Some currentOwner, metadata = None,
                    productId = pid, signature = sig\<rparr>;
              s1 = array_push history tx s;
              s2 = s1\<lparr>productHistory := (productHistory s1)(pid \<mapsto> history)\<rparr>;
              s3 = array_push (allTransactions s2) tx s2
          in (Inr \<lparr>receipt_signature = sig, receipt_account = None\<rparr>, s3))"

definition transferOwnership ::
  "env \<Rightarrow> string \<Rightarrow> string \<Rightarrow> string \<Rightarrow> store \<Rightarrow> (error + receipt) \<times> store" where
  "transferOwnership e pid currentOwner nextOwner s =
     (case transferOwnership_before_await pid currentOwner s of
        Inl err \<Rightarrow> (Inl err, s)
      | Inr history \<Rightarrow> transferOwnership_after_await e pid currentOwner nextOwner history s)"

definition recordRepair_before_await :: "string \<Rightarrow> string \<Rightarrow> store \<Rightarrow> error + addr" where
  "recordRepair_before_await pid own s =
     (case productHistory s pid of
        None \<Rightarrow> Inl (Error ''Product ID does not exist'')
      | Some history \<Rightarrow>
         (if heap s history = [] then Inl TypeError
          else
            let latestRecord = last (heap s history) in
            if owner latestRecord \<noteq> own
            then Inl (Error (''Ownership verification failed. Current owner is ''
                        @ owner latestRecord @ '', not '' @ own))
            else Inr history))"

definition recordRepair_after_await ::
  "env \<Rightarrow> string \<Rightarrow> string \<Rightarrow> string option \<Rightarrow> addr \<Rightarrow> store \<Rightarrow> (error + receipt) \<times> store" where
  "recordRepair_after_await e pid own meta history s =
     (case generateTransactionSignature e (''Record repair: '' @ pid) of
        Inl err \<Rightarrow> (Inl err, s)
      | Inr sig \<Rightarrow>
          let tx = \<lparr>type = Repair, timestamp = Date_now e, owner = own,
                    previousOwner = None, metadata = meta,
                    productId = pid, signature = sig\<rparr>;
              s1 = array_push history tx s;
              s2 = s1\<lparr>productHistory := (productHistory s1)(pid \<mapsto> history)\<rparr>;
              s3 = array_push (allTransactions s2) tx s2
          in (Inr \<lparr>receipt_signature = sig, receipt_account = None\<rparr>, s3))"

definition recordRepair ::
  "env \<Rightarrow> string \<Rightarrow> string \<Rightarrow> string option \<Rightarrow> store \<Rightarrow> (error + receipt) \<times> store" where
  "recordRepair e pid own meta s =
     (case recordRepair_before_await pid own s of
        Inl err \<Rightarrow> (Inl err, s)
      | Inr history \<Rightarrow> recordRepair_after_await e pid own meta history s)"

text \<open>The error taxonomy of the specification, as the values the code throws.\<close>

definition DuplicateProduct :: error where
  "DuplicateProduct = Error ''Product ID already exists''"

definition UnknownProduct :: error where
  "UnknownProduct = Error ''Product ID does not exist''"

definition OwnershipMismatch :: "string \<Rightarrow> string \<Rightarrow> error" where
  "OwnershipMismatch actual supplied =
     Error (''Ownership verification failed. Current owner is '' @ actual @ '', not '' @ supplied)"

subsection \<open>Queries\<close>

text \<open>\<open>getProductHistory\<close> returns the array the map holds, not a copy.\<close>

definition getProductHistory :: "string \<Rightarrow> store \<Rightarrow> (error + addr) \<times> store" where
  "getProductHistory pid s =
     (case productHistory s pid of
        None \<Rightarrow> (Inl (Error ''Product ID does not exist''), s)
      | Some history \<Rightarrow> (Inr history, s))"

text \<open>
  \<open>getRecentTransactions(limit = 10)\<close>: the default is taken when the argument is
  \<open>undefined\<close> (\<open>None\<close>). A limit is an integer.
\<close>

definition getRecentTransactions :: "int option \<Rightarrow> store \<Rightarrow> addr \<times> store" where
  "getRecentTransactions lim s =
     (let limit = (case lim of None \<Rightarrow> 10 | Some l \<Rightarrow> l);
          (a, s1) = array_slice (allTransactions s) (- limit) s
      in array_reverse a s1)"

text \<open>
  A time bound is a JavaScript number that is a safe integer: an integer of magnitude
  at most \<open>2^53 - 1\<close>, which a number holds exactly. \<open>number_value\<close> is the integer.
  Larger numbers, fractions and strings as bounds are outside the model.
\<close>

typedef safe_integer = "{n :: int. - 9007199254740991 \<le> n \<and> n \<le> 9007199254740991}"
  morphisms number_value safe_integer
  by (rule exI [of _ 0]) simp

text \<open>
  The filters object. Its \<open>owner\<close> and \<open>previousOwner\<close> are strings, its \<open>startTime\<close>
  and \<open>endTime\<close> safe integers; a key the object does not have is \<open>None\<close>.
\<close>

record filters =
  owner_filter :: "string option"
  previousOwner_filter :: "string option"
  startTime :: "safe_integer option"
  endTime :: "safe_integer option"

text \<open>
  \<open>toLowerCase\<close> maps each code unit below 256 to one code unit: the letters \<open>A\<close> to
  \<open>Z\<close> and the Latin-1 capitals \<open>U+00C0\<close> to \<open>U+00DE\<close>, but for the multiplication sign
  \<open>U+00D7\<close>, go to the code unit 32 above; every other code unit below 256 stays.
  \<open>s.includes(t)\<close> (here \<open>str_includes\<close>): \<open>t\<close> occurs in \<open>s\<close>.
\<close>

definition upper_case :: string where
  "upper_case = ''ABCDEFGHIJKLMNOPQRSTUVWXYZ'' @
     [CHR 0xC0, CHR 0xC1, CHR 0xC2, CHR 0xC3, CHR 0xC4, CHR 0xC5, CHR 0xC6, CHR 0xC7,
      CHR 0xC8, CHR 0xC9, CHR 0xCA, CHR 0xCB, CHR 0xCC, CHR 0xCD, CHR 0xCE, CHR 0xCF,
      CHR 0xD0, CHR 0xD1, CHR 0xD2, CHR 0xD3, CHR 0xD4, CHR 0xD5, CHR 0xD6,
      CHR 0xD8, CHR 0xD9, CHR 0xDA, CHR 0xDB, CHR 0xDC, CHR 0xDD, CHR 0xDE]"

definition lower_case :: string where
  "lower_case = ''abcdefghijklmnopqrstuvwxyz'' @
     [CHR 0xE0, CHR 0xE1, CHR 0xE2, CHR 0xE3, CHR 0xE4, CHR 0xE5, CHR 0xE6, CHR 0xE7,
      CHR 0xE8, CHR 0xE9, CHR 0xEA, CHR 0xEB, CHR 0xEC, CHR 0xED, CHR 0xEE, CHR 0xEF,
      CHR 0xF0, CHR 0xF1, CHR 0xF2, CHR 0xF3, CHR 0xF4, CHR 0xF5, CHR 0xF6,
      CHR 0xF8, CHR 0xF9, CHR 0xFA, CHR 0xFB, CHR 0xFC, CHR 0xFD, CHR 0xFE]"

definition lower_char :: "char \<Rightarrow> char" where
  "lower_char c =
     (case map_of (zip upper_case lower_case) c of
        None \<Rightarrow> c
      | Some l \<Rightarrow> l)"

definition toLowerCase :: "string \<Rightarrow> string" where
  "toLowerCase s = map lower_char s"

fun str_includes :: "string \<Rightarrow> string \<Rightarrow> bool" where
  "str_includes [] t = (t = [])"
| "str_includes (c # cs) t = (prefix t (c # cs) \<or> str_includes cs t)"

text \<open>
  \<open>parseInt\<close> turns its argument into text and reads an integer off its front. The
  text of a safe integer is its decimal digits in full (numbers are printed with an
  exponent only from \<open>10^21\<close> on), so the integer read is the number itself.
\<close>

definition parseInt :: "safe_integer \<Rightarrow> int" where
  "parseInt n = number_value n"

text \<open>
  Each \<open>if (filters.k)\<close> tests the value for truthiness: \<open>undefined\<close>, the empty
  string and \<open>0\<close> are falsy and the filter is skipped. Likewise \<open>tx.owner && \<dots>\<close> and
  \<open>tx.previousOwner && \<dots>\<close> are falsy for a missing or empty owner.
\<close>

definition getAllTransactions :: "filters option \<Rightarrow> store \<Rightarrow> addr \<times> store" where
  "getAllTransactions fo s =
     (let filters = (case fo of
                       None \<Rightarrow> \<lparr>owner_filter = None, previousOwner_filter = None,
                                startTime = None, endTime = None\<rparr>
                     | Some f \<Rightarrow> f);
          (t0, s0) = new_array (heap s (allTransactions s)) s;
          (t1, s1) =
            (case owner_filter filters of
               None \<Rightarrow> (t0, s0)
             | Some f \<Rightarrow>
                 if f = [] then (t0, s0)
                 else array_filter
                        (\<lambda>tx. owner tx \<noteq> [] \<and>
                              str_includes (toLowerCase (owner tx)) (toLowerCase f)) t0 s0);
          (t2, s2) =
            (case previousOwner_filter filters of
               None \<Rightarrow> (t1, s1)
             | Some f \<Rightarrow>
                 if f = [] then (t1, s1)
                 else array_filter
                        (\<lambda>tx. case previousOwner tx of
                                None \<Rightarrow> False
                              | Some po \<Rightarrow> po \<noteq> [] \<and>
                                  str_includes (toLowerCase po) (toLowerCase f)) t1 s1);
          (t3, s3) =
            (case startTime filters of
               None \<Rightarrow> (t2, s2)
             | Some b \<Rightarrow>
                 if number_value b = 0 then (t2, s2)
                 else array_filter (\<lambda>tx. timestamp tx \<ge> parseInt b) t2 s2);
          (t4, s4) =
            (case endTime filters of
               None \<Rightarrow> (t3, s3)
             | Some b \<Rightarrow>
                 if number_value b = 0 then (t3, s3)
                 else array_filter (\<lambda>tx. timestamp tx \<le> parseInt b) t3 s3);
          s5 = array_sort (\<lambda>a b. timestamp b - timestamp a) t4 s4
      in (t4, s5))"

subsection \<open>Sequences of calls\<close>

text \<open>
  \<open>sequential\<close>: the stores reached when each call runs to its end before the next
  starts, whether it returns or throws.
\<close>

inductive sequential :: "store \<Rightarrow> bool" where
  init: "sequential SolanaService"
| create: "sequential s \<Longrightarrow> sequential (snd (createProduct e pid meta own s))"
| transfer: "sequential s \<Longrightarrow> sequential (snd (transferOwnership e pid cur nxt s))"
| repair: "sequential s \<Longrightarrow> sequential (snd (recordRepair e pid own meta s))"
| history: "sequential s \<Longrightarrow> sequential (snd (getProductHistory pid s))"
| recent: "sequential s \<Longrightarrow> sequential (snd (getRecentTransactions lim s))"
| query: "sequential s \<Longrightarrow> sequential (snd (getAllTransactions fo s))"

text \<open>
  Nothing in the service keeps a second call from starting while a mutation is
  suspended at its \<open>await\<close>. A \<open>call\<close> is a mutation so suspended, with its arguments
  and, for a transfer or a repair, the \<open>history\<close> array it found. \<open>running s cs\<close>: the
  service can be in store \<open>s\<close> with the calls \<open>cs\<close> suspended. A mutation whose checks
  pass joins the suspended calls without changing the store (one whose checks throw
  changes nothing); any suspended call may resume, with whatever the mint and the
  clock give it then. The queries have no \<open>await\<close> and run in one piece. The stores
  the service can reach are those of \<open>running\<close>.
\<close>

datatype call =
    CreateProduct string "string option" string
  | TransferOwnership string string string addr
  | RecordRepair string string "string option" addr

inductive running :: "store \<Rightarrow> call list \<Rightarrow> bool" where
  init: "running SolanaService []"
| create_begin:
    "running s cs \<Longrightarrow> createProduct_before_await pid s = Inr () \<Longrightarrow>
     running s (CreateProduct pid meta own # cs)"
| create_end:
    "running s cs \<Longrightarrow> CreateProduct pid meta own \<in> set cs \<Longrightarrow>
     running (snd (createProduct_after_await e pid meta own s))
       (remove1 (CreateProduct pid meta own) cs)"
| transfer_begin:
    "running s cs \<Longrightarrow> transferOwnership_before_await pid cur s = Inr history \<Longrightarrow>
     running s (TransferOwnership pid cur nxt history # cs)"
| transfer_end:
    "running s cs \<Longrightarrow> TransferOwnership pid cur nxt history \<in> set cs \<Longrightarrow>
     running (snd (transferOwnership_after_await e pid cur nxt history s))
       (remove1 (TransferOwnership pid cur nxt history) cs)"
| repair_begin:
    "running s cs \<Longrightarrow> recordRepair_before_await pid own s = Inr history \<Longrightarrow>
     running s (RecordRepair pid own meta history # cs)"
| repair_end:
    "running s cs \<Longrightarrow> RecordRepair pid own meta history \<in> set cs \<Longrightarrow>
     running (snd (recordRepair_after_await e pid own meta history s))
       (remove1 (RecordRepair pid own meta history) cs)"
| history: "running s cs \<Longrightarrow> running (snd (getProductHistory pid s)) cs"
| recent: "running s cs \<Longrightarrow> running (snd (getRecentTransactions lim s)) cs"
| query: "running s cs \<Longrightarrow> running (snd (getAllTransactions fo s)) cs"

definition reachable :: "store \<Rightarrow> bool" where
  "reachable s \<longleftrightarrow> (\<exists>cs. running s cs)"

text \<open>
  What holds of the heap also when calls overlap: an array that is a product's
  history, or that a suspended call holds, was allocated, is not the global array,
  and starts with a record of that product.
\<close>

definition array_for :: "store \<Rightarrow> string \<Rightarrow> addr \<Rightarrow> bool" where
  "array_for s pid a \<longleftrightarrow>
     a < fresh s \<and> a \<noteq> allTransactions s \<and> heap s a \<noteq> [] \<and> productId (hd (heap s a)) = pid"

fun call_ok :: "store \<Rightarrow> call \<Rightarrow> bool" where
  "call_ok s (CreateProduct pid meta own) \<longleftrightarrow> True"
| "call_ok s (TransferOwnership pid cur nxt history) \<longleftrightarrow> array_for s pid history"
| "call_ok s (RecordRepair pid own meta history) \<longleftrightarrow> array_for s pid history"

definition running_ok :: "store \<Rightarrow> call list \<Rightarrow> bool" where
  "running_ok s cs \<longleftrightarrow>
     allTransactions s < fresh s \<and>
     (\<forall>p a. productHistory s p = Some a \<longrightarrow> array_for s p a) \<and>
     (\<forall>c \<in> set cs. call_ok s c)"

text \<open>
  The shape of the heap the methods keep: the global array and every history array
  were allocated, the global array is no product's history, and two products never
  share one array.
\<close>

definition store_ok :: "store \<Rightarrow> bool" where
  "store_ok s \<longleftrightarrow>
     allTransactions s < fresh s \<and>
     (\<forall>p a. productHistory s p = Some a \<longrightarrow> a < fresh s \<and> a \<noteq> allTransactions s) \<and>
     (\<forall>p q a. productHistory s p = Some a \<longrightarrow> productHistory s q = Some a \<longrightarrow> p = q)"

text \<open>
  Chain of custody along one history: every transfer names the owner before it, and
  a repair keeps the owner.
\<close>

fun custody :: "transaction list \<Rightarrow> bool" where
  "custody (d # e # es) \<longleftrightarrow>
     (type e = Transfer \<longrightarrow> previousOwner e = Some (owner d)) \<and>
     (type e = Repair \<longrightarrow> owner e = owner d) \<and>
     custody (e # es)"
| "custody _ \<longleftrightarrow> True"

definition chain_ok :: "transaction list \<Rightarrow> bool" where
  "chain_ok c \<longleftrightarrow>
     c \<noteq> [] \<and> type (hd c) = Manufacture \<and> previousOwner (hd c) = None \<and> custody c"

text \<open>Every product's history is a chain of custody that starts at its manufacture.\<close>

definition chains_ok :: "store \<Rightarrow> bool" where
  "chains_ok s \<longleftrightarrow> (\<forall>p a. productHistory s p = Some a \<longrightarrow> chain_ok (heap s a))"

text \<open>
  The two pushes of a transfer or a repair: onto the product's history, then onto the
  global array.
\<close>

definition append_tx :: "addr \<Rightarrow> transaction \<Rightarrow> store \<Rightarrow> store" where
  "append_tx a tx s = array_push (allTransactions s) tx (array_push a tx s)"

text \<open>
  \<open>extends s s'\<close>: the store \<open>s'\<close> differs from \<open>s\<close> only in arrays allocated after \<open>s\<close>.
  \<open>owned s p xs\<close>: the pair \<open>p\<close> of an array and a store is such an extension of \<open>s\<close>,
  and the array is one of the new ones and holds \<open>xs\<close>.
\<close>

definition extends :: "store \<Rightarrow> store \<Rightarrow> bool" where
  "extends s s' \<longleftrightarrow>
     productHistory s' = productHistory s \<and> allTransactions s' = allTransactions s \<and>
     fresh s \<le> fresh s' \<and> (\<forall>a. a < fresh s \<longrightarrow> heap s' a = heap s a)"

definition owned :: "store \<Rightarrow> addr \<times> store \<Rightarrow> transaction list \<Rightarrow> bool" where
  "owned s p xs \<longleftrightarrow>
     extends s (snd p) \<and> fresh s \<le> fst p \<and> fst p < fresh (snd p) \<and> heap (snd p) (fst p) = xs"

text \<open>The four tests of \<open>getAllTransactions\<close> on one record, skipped tests passing.\<close>

definition tx_passes :: "filters \<Rightarrow> transaction \<Rightarrow> bool" where
  "tx_passes f tx \<longleftrightarrow>
     (case owner_filter f of
        None \<Rightarrow> True
      | Some w \<Rightarrow> w = [] \<or>
          (owner tx \<noteq> [] \<and> str_includes (toLowerCase (owner tx)) (toLowerCase w))) \<and>
     (case previousOwner_filter f of
        None \<Rightarrow> True
      | Some w \<Rightarrow> w = [] \<or>
          (case previousOwner tx of
             None \<Rightarrow> False
           | Some po \<Rightarrow> po \<noteq> [] \<and> str_includes (toLowerCase po) (toLowerCase w))) \<and>
     (case startTime f of None \<Rightarrow> True | Some b \<Rightarrow> number_value b = 0 \<or> timestamp tx \<ge> parseInt b) \<and>
     (case endTime f of None \<Rightarrow> True | Some b \<Rightarrow> number_value b = 0 \<or> timestamp tx \<le> parseInt b)"

text \<open>The contents of the array a query returns, read in the store the query leaves.\<close>

definition result_of :: "addr \<times> store \<Rightarrow> transaction list" where
  "result_of p = heap (snd p) (fst p)"

text \<open>
  The filters as the specification words them: a case-insensitive substring match
  on the owner; the same on \<open>previousOwner\<close>, which a record without that field never
  passes; inclusive time bounds; all filters of the object taken together.
\<close>

definition ci_contains :: "string \<Rightarrow> string \<Rightarrow> bool" where
  "ci_contains s t \<longleftrightarrow> sublist (toLowerCase t) (toLowerCase s)"

definition spec_matches :: "filters \<Rightarrow> transaction \<Rightarrow> bool" where
  "spec_matches f tx \<longleftrightarrow>
     (case owner_filter f of None \<Rightarrow> True | Some w \<Rightarrow> ci_contains (owner tx) w) \<and>
     (case previousOwner_filter f of
        None \<Rightarrow> True
      | Some w \<Rightarrow> (case previousOwner tx of None \<Rightarrow> False | Some po \<Rightarrow> ci_contains po w)) \<and>
     (case startTime f of None \<Rightarrow> True | Some b \<Rightarrow> number_value b \<le> timestamp tx) \<and>
     (case endTime f of None \<Rightarrow> True | Some b \<Rightarrow> timestamp tx \<le> number_value b)"

text \<open>
  The filters the code applies: a filter whose value is falsy (the empty string, the
  number 0) is skipped as if the key were absent.
\<close>

definition applied_filters :: "filters \<Rightarrow> filters" where
  "applied_filters f =
     \<lparr>owner_filter = (case owner_filter f of None \<Rightarrow> None | Some w \<Rightarrow> if w = [] then None else Some w),
      previousOwner_filter =
        (case previousOwner_filter f of None \<Rightarrow> None | Some w \<Rightarrow> if w = [] then None else Some w),
      startTime = (case startTime f of None \<Rightarrow> None | Some b \<Rightarrow> if number_value b = 0 then None else Some b),
      endTime = (case endTime f of None \<Rightarrow> None | Some b \<Rightarrow> if number_value b = 0 then None else Some b)\<rparr>"

text \<open>
  Each product's chain is the part of the GlobalLog with that product id, in the same
  order; a product without a chain has no entry in the GlobalLog.
\<close>

definition log_projects :: "store \<Rightarrow> bool" where
  "log_projects s \<longleftrightarrow>
     (\<forall>p. ProductChain s p =
        (if filter (\<lambda>tx. productId tx = p) (GlobalLog s) = [] then None
         else Some (filter (\<lambda>tx. productId tx = p) (GlobalLog s))))"

text \<open>
  \<open>clocked t s\<close>: the store \<open>s\<close> is reached by calls at which the clock never read less
  than at the call before; \<open>t\<close> is the last reading.
\<close>

inductive clocked :: "int \<Rightarrow> store \<Rightarrow> bool" where
  init: "clocked t SolanaService"
| create: "clocked t s \<Longrightarrow> t \<le> Date_now e \<Longrightarrow>
     clocked (Date_now e) (snd (createProduct e pid meta own s))"
| transfer: "clocked t s \<Longrightarrow> t \<le> Date_now e \<Longrightarrow>
     clocked (Date_now e) (snd (transferOwnership e pid cur nxt s))"
| repair: "clocked t s \<Longrightarrow> t \<le> Date_now e \<Longrightarrow>
     clocked (Date_now e) (snd (recordRepair e pid own meta s))"
| history: "clocked t s \<Longrightarrow> clocked t (snd (getProductHistory pid s))"
| recent: "clocked t s \<Longrightarrow> clocked t (snd (getRecentTransactions lim s))"
| query: "clocked t s \<Longrightarrow> clocked t (snd (getAllTransactions fo s))"

text \<open>
  A scenario: the anchor accepts every transaction; product \<open>BIKE-001\<close> is made by
  \<open>A\<close>, transferred to \<open>B\<close>, then repaired by \<open>B\<close>.
\<close>

definition anchored :: "string \<Rightarrow> int \<Rightarrow> env" where
  "anchored sig t =
     \<lparr>Transaction_add = Inr (),
      getLatestBlockhash = Inr ''EkSnNWid2cvwEVnVx9aBqawnmiCNiDgp3gUdkDPTKN1N'',
      Transaction_sign = (\<lambda>blockhash. Inr ()),
      Transaction_serialize = (\<lambda>blockhash. Inr [1, 0, 1, 3]),
      sendRawTransaction = (\<lambda>raw. Inr sig),
      entropy = (\<lambda>i. 0), Date_now = t, Keypair_generate = ''account''\<rparr>"

definition bike1 :: store where
  "bike1 = snd (createProduct (anchored ''s1'' 1000) ''BIKE-001'' None ''A'' SolanaService)"

definition bike2 :: store where
  "bike2 = snd (transferOwnership (anchored ''s2'' 2000) ''BIKE-001'' ''A'' ''B'' bike1)"

definition bike3 :: store where
  "bike3 = snd (recordRepair (anchored ''s3'' 3000) ''BIKE-001'' ''B'' (Some ''brake service'') bike2)"

text \<open>
  Two transfers of \<open>BIKE-001\<close> by \<open>A\<close>, to \<open>B\<close> and to \<open>C\<close>, both started in the store
  \<open>bike1\<close>, where \<open>A\<close> is the owner and the history is array 1; then the first resumes,
  then the second.
\<close>

definition raced :: store where
  "raced =
     snd (transferOwnership_after_await (anchored ''s3'' 3000) ''BIKE-001'' ''A'' ''C'' 1
       (snd (transferOwnership_after_await (anchored ''s2'' 2000) ''BIKE-001'' ''A'' ''B'' 1
         bike1)))"

text \<open>A second product made while the clock reads less than at the first.\<close>

definition skewed :: store where
  "skewed = snd (createProduct (anchored ''s2'' 500) ''BIKE-002'' None ''A'' bike1)"

section \<open>Properties of the encoding\<close>

lemma below_16_cases:
  "n < 16 \<Longrightarrow> n \<in> {0, 1, 2, 3, 4, 5, 6, 7, 8, 9, 10, 11, 12, 13, 14, 15::nat}"
  by (simp; arith)

lemma hexval_hexdigit: "n < 16 \<Longrightarrow> hexval (hexdigit n) = Some n"
  using below_16_cases [of n] by (auto simp: hexval_def hexdigit_def)

lemma parse_hex_toString_hex:
  "parse_hex (toString_hex bytes) acc = Some (foldl (\<lambda>v b. v * 256 + unat b) acc bytes)"
proof (induction bytes arbitrary: acc)
  case Nil
  show ?case by (simp add: toString_hex_def)
next
  case (Cons b bytes)
  have hi: "unat b div 16 < 16"
    using unsigned_less [of b, where ?'a = nat] by (simp add: less_mult_imp_div_less)
  have lo: "unat b mod 16 < 16" by simp
  have eq: "16 * (16 * acc + unat b div 16) + unat b mod 16 = acc * 256 + unat b"
    by presburger
  have tl: "toString_hex (b # bytes) =
      hexdigit (unat b div 16) # hexdigit (unat b mod 16) # toString_hex bytes"
    by (simp add: toString_hex_def)
  have "parse_hex (toString_hex (b # bytes)) acc
      = parse_hex (toString_hex bytes) (16 * (16 * acc + unat b div 16) + unat b mod 16)"
    unfolding tl
    by (simp only: parse_hex.simps hexval_hexdigit [OF hi] hexval_hexdigit [OF lo] option.case)
  also have "\<dots> = Some (foldl (\<lambda>v b. v * 256 + unat b) (acc * 256 + unat b) bytes)"
    unfolding eq by (rule Cons.IH)
  finally show ?case by simp
qed

lemma BigInt_0x_toString_hex:
  "bytes \<noteq> [] \<Longrightarrow> BigInt_0x (toString_hex bytes) = Inr (spec_value bytes)"
proof -
  assume "bytes \<noteq> []"
  then have "toString_hex bytes \<noteq> []"
    by (cases bytes) (simp_all add: toString_hex_def)
  then show ?thesis
    by (simp add: BigInt_0x_def parse_hex_toString_hex spec_value_def)
qed

lemma encode_loop_spec: "encode_loop n acc = spec_digits n @ acc"
proof (induction n acc rule: encode_loop.induct)
  case (1 num encoded)
  show ?case
  proof (cases "num > 0")
    case True
    then show ?thesis
      using "1.IH" by (subst encode_loop.simps, subst spec_digits.simps) simp
  next
    case False
    then show ?thesis
      by (subst encode_loop.simps, subst spec_digits.simps) simp
  qed
qed

lemma takeWhile_drop_nil:
  "\<not> (i < length bytes \<and> bytes ! i = (0::byte)) \<Longrightarrow>
   takeWhile (\<lambda>b. b = 0) (drop i bytes) = []"
proof (cases "i < length bytes")
  case True
  assume "\<not> (i < length bytes \<and> bytes ! i = 0)"
  with True have "bytes ! i \<noteq> 0" by simp
  moreover from True have "drop i bytes = bytes ! i # drop (Suc i) bytes"
    by (simp add: Cons_nth_drop_Suc)
  ultimately show ?thesis by simp
next
  case False
  then show ?thesis by simp
qed

lemma zeros_loop_spec:
  "zeros_loop i bytes acc =
     replicate (length (takeWhile (\<lambda>b. b = 0) (drop i bytes))) (CHR ''1'') @ acc"
proof (induction i bytes acc rule: zeros_loop.induct)
  case (1 i bytes encoded)
  show ?case
  proof (cases "i < length bytes \<and> bytes ! i = 0")
    case True
    then have d: "drop i bytes = 0 # drop (i + 1) bytes"
      by (metis Cons_nth_drop_Suc Suc_eq_plus1)
    from True have "zeros_loop i bytes encoded = zeros_loop (i + 1) bytes (CHR ''1'' # encoded)"
      by (subst zeros_loop.simps) simp
    also have "\<dots> = replicate (length (takeWhile (\<lambda>b. b = 0) (drop (i + 1) bytes))) (CHR ''1'')
        @ CHR ''1'' # encoded"
      using "1.IH" True by simp
    finally show ?thesis
      by (simp add: d replicate_app_Cons_same)
  next
    case False
    then have "zeros_loop i bytes encoded = encoded"
      by (subst zeros_loop.simps) auto
    with False show ?thesis
      by (simp add: takeWhile_drop_nil)
  qed
qed

lemma encodeBase58_refines:
  "bytes \<noteq> [] \<Longrightarrow> encodeBase58 bytes = Inr (spec_encodeBase58 bytes)"
  by (simp add: encodeBase58_def BigInt_0x_toString_hex encode_loop_spec zeros_loop_spec
      spec_encodeBase58_def)

lemma spec_value_zeros: "spec_value (replicate n 0) = 0"
  unfolding spec_value_def by (induction n) simp_all

lemma encodeBase58_zeros:
  "0 < n \<Longrightarrow> encodeBase58 (replicate n 0) = Inr (replicate n (CHR ''1''))"
proof -
  assume "0 < n"
  then have "replicate n (0::byte) \<noteq> []" by simp
  then have "encodeBase58 (replicate n 0) = Inr (spec_encodeBase58 (replicate n 0))"
    by (rule encodeBase58_refines)
  moreover have "spec_digits 0 = []" by (subst spec_digits.simps) simp
  ultimately show ?thesis
    by (simp add: spec_encodeBase58_def spec_value_zeros)
qed

lemma encodeBase58_0x3A: "encodeBase58 [0x3A] = Inr ''21''"
  by (simp add: encodeBase58_def toString_hex_def BigInt_0x_def hexdigit_def hexval_def
      encode_loop.simps zeros_loop.simps ALPHABET_def)

text \<open>
  On every buffer of at least one byte \<open>encodeBase58\<close> returns the specified encoding:
  the base-58 digits of the buffer read as a base-256 number, after one \<open>'1'\<close> per
  leading zero byte.
\<close>

theorem encodeBase58_matches_specification:
  "bytes \<noteq> [] \<Longrightarrow> encodeBase58 bytes = Inr (spec_encodeBase58 bytes)"
  by (rule encodeBase58_refines)

theorem encodeBase58_matches_specification_witness:
  "[0, 0, 1, 2, 255] \<noteq> ([] :: byte list) \<and> encodeBase58 [0, 0, 1, 2, 255] = Inr ''11LiA''"
proof -
  have n: "[0, 0, 1, 2, 255] \<noteq> ([] :: byte list)" by simp
  have "spec_encodeBase58 [0, 0, 1, 2, 255] = ''11LiA''"
    by (simp add: spec_encodeBase58_def spec_value_def spec_digits.simps ALPHABET_def)
  with encodeBase58_matches_specification [OF n] show ?thesis by simp
qed

text \<open>
  \<open>n \<ge> 1\<close> zero bytes encode to \<open>n\<close> characters \<open>'1'\<close>; the byte \<open>0x3A\<close> (58) encodes to
  \<open>"21"\<close>.
\<close>

theorem encodeBase58_named_instances:
  "(0 < n \<longrightarrow> encodeBase58 (replicate n 0) = Inr (replicate n (CHR ''1''))) \<and>
   encodeBase58 [0x3A] = Inr ''21''"
  by (simp add: encodeBase58_zeros encodeBase58_0x3A)

theorem encodeBase58_named_instances_witness:
  "(0::nat) < 3 \<and> encodeBase58 [0, 0, 0] = Inr ''111''"
  using encodeBase58_named_instances [of 3] by (simp add: numeral_3_eq_3)

text \<open>
  Claim C5. \<open>encodeBase58\<close> is to compute the specified encoding of every byte buffer:
  the buffer as an unsigned base-256 integer, divided by 58 until it is zero, one
  \<open>'1'\<close> in front per leading zero byte. On every buffer with at least one byte it
  does, as shown above. On the empty buffer the specified encoding is the empty
  string, but the code builds the literal \<open>'0x'\<close>, and \<open>BigInt\<close> throws.
\<close>

theorem encodeBase58_empty_throws:
  "encodeBase58 [] = Inl SyntaxError \<and> spec_encodeBase58 [] = []"
  by (simp add: encodeBase58_def toString_hex_def BigInt_0x_def spec_encodeBase58_def
      spec_value_def spec_digits.simps)

section \<open>Minting never fails\<close>

lemma length_randomBytes: "length (randomBytes e n) = n"
  by (simp add: randomBytes_def)

lemma ALPHABET_length: "length ALPHABET = 58"
  by (simp add: ALPHABET_def)

lemma spec_digits_alphabet: "set (spec_digits n) \<subseteq> set ALPHABET"
proof (induction n rule: spec_digits.induct)
  case (1 n)
  show ?case
  proof (cases "n = 0")
    case True
    then show ?thesis by (subst spec_digits.simps) simp
  next
    case False
    have "ALPHABET ! (n mod 58) \<in> set ALPHABET"
      by (rule nth_mem) (simp add: ALPHABET_length)
    with False "1.IH" show ?thesis
      by (subst spec_digits.simps) simp
  qed
qed

lemma spec_encodeBase58_alphabet: "set (spec_encodeBase58 bytes) \<subseteq> set ALPHABET"
proof -
  have "CHR ''1'' \<in> set ALPHABET"
    by (simp add: ALPHABET_def)
  then show ?thesis
    using spec_digits_alphabet [of "spec_value bytes"]
    by (auto simp: spec_encodeBase58_def)
qed

lemma fallback_signature:
  "encodeBase58 (randomBytes e 64) = Inr (spec_encodeBase58 (randomBytes e 64))"
proof -
  have "randomBytes e 64 \<noteq> []"
    using length_randomBytes [of e 64] by auto
  then show ?thesis by (rule encodeBase58_refines)
qed

text \<open>The description is only logged: one signature serves every description.\<close>

lemma generateTransactionSignature_Inr:
  "\<exists>sig. \<forall>d. generateTransactionSignature e d = Inr sig"
  by (simp add: generateTransactionSignature_def fallback_signature split: sum.split)

text \<open>
  Claim C4. Minting never fails to its caller: for every description and every
  outcome of the library calls, \<open>generateTransactionSignature\<close> returns a signature
  string. Whenever the anchor write fails, whichever statement of the \<open>try\<close> block
  throws, the signature is the encoding of the 64 bytes drawn from
  \<open>crypto.randomBytes\<close>, a string over the 58-character alphabet; encoding them does
  not throw, since the buffer is not empty. Otherwise it is the anchor's signature.
\<close>

theorem generateTransactionSignature_never_fails:
  "(\<exists>sig. generateTransactionSignature e d = Inr sig) \<and>
   (\<forall>message. try_block e = Inl message \<longrightarrow>
      generateTransactionSignature e d = encodeBase58 (randomBytes e 64) \<and>
      length (randomBytes e 64) = 64 \<and>
      (\<exists>sig. encodeBase58 (randomBytes e 64) = Inr sig \<and> set sig \<subseteq> set ALPHABET)) \<and>
   (\<forall>sig. try_block e = Inr sig \<longrightarrow> generateTransactionSignature e d = Inr sig)"
proof (intro conjI allI impI)
  show "\<exists>sig. generateTransactionSignature e d = Inr sig"
    using generateTransactionSignature_Inr [of e] by blast
next
  fix message assume "try_block e = Inl message"
  then show "generateTransactionSignature e d = encodeBase58 (randomBytes e 64)"
    by (simp add: generateTransactionSignature_def)
next
  show "length (randomBytes e 64) = 64" by (rule length_randomBytes)
next
  show "\<exists>sig. encodeBase58 (randomBytes e 64) = Inr sig \<and> set sig \<subseteq> set ALPHABET"
    using fallback_signature spec_encodeBase58_alphabet by blast
next
  fix sig assume "try_block e = Inr sig"
  then show "generateTransactionSignature e d = Inr sig"
    by (simp add: generateTransactionSignature_def)
qed

text \<open>
  The theorem where signing throws on the block hash fetched, after the first RPC call
  has succeeded, and every random byte is 0.
\<close>

theorem generateTransactionSignature_never_fails_witness:
  "try_block
     \<lparr>Transaction_add = Inr (), getLatestBlockhash = Inr ''blockhash'',
       Transaction_sign = (\<lambda>blockhash. Inl ''Non-base58 character''),
       Transaction_serialize = (\<lambda>blockhash. Inr []),
       sendRawTransaction = (\<lambda>raw. Inr ''unused''),
       entropy = (\<lambda>i. 0), Date_now = 1700000000000, Keypair_generate = ''K''\<rparr>
     = Inl ''Non-base58 character'' \<and>
   generateTransactionSignature
     \<lparr>Transaction_add = Inr (), getLatestBlockhash = Inr ''blockhash'',
       Transaction_sign = (\<lambda>blockhash. Inl ''Non-base58 character''),
       Transaction_serialize = (\<lambda>blockhash. Inr []),
       sendRawTransaction = (\<lambda>raw. Inr ''unused''),
       entropy = (\<lambda>i. 0), Date_now = 1700000000000, Keypair_generate = ''K''\<rparr>
     ''Create product: BIKE-001''
   = encodeBase58 (replicate 64 0)"
proof -
  let ?e = "\<lparr>Transaction_add = Inr (), getLatestBlockhash = Inr ''blockhash'',
       Transaction_sign = (\<lambda>blockhash. Inl ''Non-base58 character''),
       Transaction_serialize = (\<lambda>blockhash. Inr []),
       sendRawTransaction = (\<lambda>raw. Inr ''unused''),
       entropy = (\<lambda>i. 0::byte), Date_now = 1700000000000, Keypair_generate = ''K''\<rparr>"
  have f: "try_block ?e = Inl ''Non-base58 character''"
    by (simp add: try_block_def)
  have r: "randomBytes ?e 64 = replicate 64 0"
    by (simp add: randomBytes_def map_replicate_const)
  from generateTransactionSignature_never_fails [of ?e "''Create product: BIKE-001''"] f
  have "generateTransactionSignature ?e ''Create product: BIKE-001''
      = encodeBase58 (randomBytes ?e 64)"
    by blast
  with f r show ?thesis by simp
qed

section \<open>The chain of custody\<close>

lemma custody_snoc:
  "c \<noteq> [] \<Longrightarrow>
   custody (c @ [e]) \<longleftrightarrow>
     custody c \<and>
     (type e = Transfer \<longrightarrow> previousOwner e = Some (owner (last c))) \<and>
     (type e = Repair \<longrightarrow> owner e = owner (last c))"
  by (induction c rule: custody.induct) auto

lemma custody_nth:
  "custody c \<longleftrightarrow>
     (\<forall>i. Suc i < length c \<longrightarrow>
        (type (c ! Suc i) = Transfer \<longrightarrow> previousOwner (c ! Suc i) = Some (owner (c ! i))) \<and>
        (type (c ! Suc i) = Repair \<longrightarrow> owner (c ! Suc i) = owner (c ! i)))"
proof (induction c rule: custody.induct)
  case (1 d e es)
  let ?P = "\<lambda>c i.
        (type (c ! Suc i) = Transfer \<longrightarrow> previousOwner (c ! Suc i) = Some (owner (c ! i))) \<and>
        (type (c ! Suc i) = Repair \<longrightarrow> owner (c ! Suc i) = owner (c ! i))"
  have "(\<forall>i. Suc i < length (d # e # es) \<longrightarrow> ?P (d # e # es) i) \<longleftrightarrow>
        ?P (d # e # es) 0 \<and> (\<forall>i. Suc i < length (e # es) \<longrightarrow> ?P (e # es) i)"
    (is "?L \<longleftrightarrow> ?R")
  proof
    assume l: ?L
    have "?P (d # e # es) 0" using l [rule_format, of 0] by simp
    moreover have "\<forall>i. Suc i < length (e # es) \<longrightarrow> ?P (e # es) i"
    proof (intro allI impI)
      fix i assume "Suc i < length (e # es)"
      then have "Suc (Suc i) < length (d # e # es)" by simp
      with l have "?P (d # e # es) (Suc i)" by blast
      then show "?P (e # es) i" by simp
    qed
    ultimately show ?R by blast
  next
    assume r: ?R
    show ?L
    proof (intro allI impI)
      fix i assume "Suc i < length (d # e # es)"
      then show "?P (d # e # es) i"
        using r by (cases i) simp_all
    qed
  qed
  with "1.IH" show ?case by simp
qed simp_all

lemma chain_ok_snoc:
  "chain_ok c \<Longrightarrow>
   (type e = Transfer \<longrightarrow> previousOwner e = Some (owner (last c))) \<Longrightarrow>
   (type e = Repair \<longrightarrow> owner e = owner (last c)) \<Longrightarrow>
   chain_ok (c @ [e])"
  by (simp add: chain_ok_def custody_snoc)

lemma store_ok_log: "store_ok s \<Longrightarrow> allTransactions s < fresh s"
  by (simp add: store_ok_def)

lemma store_ok_addr:
  "store_ok s \<Longrightarrow> productHistory s p = Some a \<Longrightarrow> a < fresh s \<and> a \<noteq> allTransactions s"
  unfolding store_ok_def by blast

lemma store_ok_inj:
  "store_ok s \<Longrightarrow> productHistory s p = Some a \<Longrightarrow> productHistory s q = Some a \<Longrightarrow> p = q"
  unfolding store_ok_def by blast

lemma chains_okD: "chains_ok s \<Longrightarrow> productHistory s p = Some a \<Longrightarrow> chain_ok (heap s a)"
  unfolding chains_ok_def by blast

subsection \<open>What each mutation does\<close>

text \<open>The three methods, run without another call in between, as single equations.\<close>

lemma createProduct_unfold:
  "createProduct e pid meta manufacturerPublicKey s =
     (if productHistory s pid \<noteq> None then (Inl (Error ''Product ID already exists''), s)
      else
        case generateTransactionSignature e (''Create product: '' @ pid) of
          Inl err \<Rightarrow> (Inl err, s)
        | Inr sig \<Rightarrow>
            let tx = \<lparr>type = Manufacture, timestamp = Date_now e,
                      owner = manufacturerPublicKey, previousOwner = None,
                      metadata = Some (case meta of None \<Rightarrow> [] | Some m \<Rightarrow> m),
                      productId = pid, signature = sig\<rparr>;
                (a, s1) = new_array [tx] s;
                s2 = s1\<lparr>productHistory := (productHistory s1)(pid \<mapsto> a)\<rparr>;
                s3 = array_push (allTransactions s2) tx s2
            in (Inr \<lparr>receipt_signature = sig, receipt_account = Some (Keypair_generate e)\<rparr>, s3))"
  by (simp add: createProduct_def createProduct_before_await_def createProduct_after_await_def)

lemma transferOwnership_unfold:
  "transferOwnership e pid currentOwner nextOwner s =
     (case productHistory s pid of
        None \<Rightarrow> (Inl (Error ''Product ID does not exist''), s)
      | Some history \<Rightarrow>
         (if heap s history = [] then (Inl TypeError, s)
          else
            let latestRecord = last (heap s history) in
            if owner latestRecord \<noteq> currentOwner
            then (Inl (Error (''Ownership verification failed. Current owner is ''
                        @ owner latestRecord @ '', not '' @ currentOwner)), s)
            else
              case generateTransactionSignature e
                     (''Transfer product: '' @ pid @ '' from '' @ take 8 currentOwner
                        @ '' to '' @ take 8 nextOwner) of
                Inl err \<Rightarrow> (Inl err, s)
              | Inr sig \<Rightarrow>
                  let tx = \<lparr>type = Transfer, timestamp = Date_now e, owner = nextOwner,
                            previousOwner = Some currentOwner, metadata = None,
                            productId = pid, signature = sig\<rparr>;
                      s1 = array_push history tx s;
                      s2 = s1\<lparr>productHistory := (productHistory s1)(pid \<mapsto> history)\<rparr>;
                      s3 = array_push (allTransactions s2) tx s2
                  in (Inr \<lparr>receipt_signature = sig, receipt_account = None\<rparr>, s3)))"
  by (simp add: transferOwnership_def transferOwnership_before_await_def
      transferOwnership_after_await_def Let_def split: option.split)

lemma recordRepair_unfold:
  "recordRepair e pid own meta s =
     (case productHistory s pid of
        None \<Rightarrow> (Inl (Error ''Product ID does not exist''), s)
      | Some history \<Rightarrow>
         (if heap s history = [] then (Inl TypeError, s)
          else
            let latestRecord = last (heap s history) in
            if owner latestRecord \<noteq> own
            then (Inl (Error (''Ownership verification failed. Current owner is ''
                        @ owner latestRecord @ '', not '' @ own)), s)
            else
              case generateTransactionSignature e (''Record repair: '' @ pid) of
                Inl err \<Rightarrow> (Inl err, s)
              | Inr sig \<Rightarrow>
                  let tx = \<lparr>type = Repair, timestamp = Date_now e, owner = own,
                            previousOwner = None, metadata = meta,
                            productId = pid, signature = sig\<rparr>;
                      s1 = array_push history tx s;
                      s2 = s1\<lparr>productHistory := (productHistory s1)(pid \<mapsto> history)\<rparr>;
                      s3 = array_push (allTransactions s2) tx s2
                  in (Inr \<lparr>receipt_signature = sig, receipt_account = None\<rparr>, s3)))"
  by (simp add: recordRepair_def recordRepair_before_await_def recordRepair_after_await_def
      Let_def split: option.split)

lemma createProduct_duplicate:
  "productHistory s pid = Some a \<Longrightarrow>
   createProduct e pid meta own s = (Inl (Error ''Product ID already exists''), s)"
  by (simp add: createProduct_unfold)

lemma createProduct_success:
  assumes "productHistory s pid = None"
  shows "\<exists>sig tx.
     tx = \<lparr>type = Manufacture, timestamp = Date_now e, owner = own, previousOwner = None,
           metadata = Some (case meta of None \<Rightarrow> [] | Some m \<Rightarrow> m), productId = pid,
           signature = sig\<rparr> \<and>
     createProduct e pid meta own s =
       (Inr \<lparr>receipt_signature = sig, receipt_account = Some (Keypair_generate e)\<rparr>,
        s\<lparr>heap := (heap s)(fresh s := [tx],
                            allTransactions s := ((heap s)(fresh s := [tx])) (allTransactions s) @ [tx]),
          fresh := fresh s + 1,
          productHistory := (productHistory s)(pid \<mapsto> fresh s)\<rparr>)"
proof -
  obtain sig where sig: "\<And>d. generateTransactionSignature e d = Inr sig"
    using generateTransactionSignature_Inr by blast
  show ?thesis
    using assms by (simp add: createProduct_unfold sig Let_def new_array_def array_push_def)
qed

lemma transferOwnership_unknown:
  "productHistory s pid = None \<Longrightarrow>
   transferOwnership e pid cur nxt s = (Inl (Error ''Product ID does not exist''), s)"
  by (simp add: transferOwnership_unfold)

lemma transferOwnership_mismatch:
  "productHistory s pid = Some a \<Longrightarrow> heap s a \<noteq> [] \<Longrightarrow> owner (last (heap s a)) \<noteq> cur \<Longrightarrow>
   transferOwnership e pid cur nxt s =
     (Inl (Error (''Ownership verification failed. Current owner is ''
            @ owner (last (heap s a)) @ '', not '' @ cur)), s)"
  by (simp add: transferOwnership_unfold Let_def)

lemma transferOwnership_success:
  assumes "productHistory s pid = Some a" "heap s a \<noteq> []" "owner (last (heap s a)) = cur"
  shows "\<exists>sig tx.
     tx = \<lparr>type = Transfer, timestamp = Date_now e, owner = nxt, previousOwner = Some cur,
           metadata = None, productId = pid, signature = sig\<rparr> \<and>
     transferOwnership e pid cur nxt s =
       (Inr \<lparr>receipt_signature = sig, receipt_account = None\<rparr>, append_tx a tx s)"
proof -
  obtain sig where sig: "\<And>d. generateTransactionSignature e d = Inr sig"
    using generateTransactionSignature_Inr by blast
  have "(productHistory s)(pid \<mapsto> a) = productHistory s"
    using assms(1) by (simp add: map_upd_triv)
  then show ?thesis
    using assms
    by (simp add: transferOwnership_unfold sig Let_def array_push_def append_tx_def)
qed

lemma recordRepair_unknown:
  "productHistory s pid = None \<Longrightarrow>
   recordRepair e pid own meta s = (Inl (Error ''Product ID does not exist''), s)"
  by (simp add: recordRepair_unfold)

lemma recordRepair_mismatch:
  "productHistory s pid = Some a \<Longrightarrow> heap s a \<noteq> [] \<Longrightarrow> owner (last (heap s a)) \<noteq> own \<Longrightarrow>
   recordRepair e pid own meta s =
     (Inl (Error (''Ownership verification failed. Current owner is ''
            @ owner (last (heap s a)) @ '', not '' @ own)), s)"
  by (simp add: recordRepair_unfold Let_def)

lemma recordRepair_success:
  assumes "productHistory s pid = Some a" "heap s a \<noteq> []" "owner (last (heap s a)) = own"
  shows "\<exists>sig tx.
     tx = \<lparr>type = Repair, timestamp = Date_now e, owner = own, previousOwner = None,
           metadata = meta, productId = pid, signature = sig\<rparr> \<and>
     recordRepair e pid own meta s =
       (Inr \<lparr>receipt_signature = sig, receipt_account = None\<rparr>, append_tx a tx s)"
proof -
  obtain sig where sig: "\<And>d. generateTransactionSignature e d = Inr sig"
    using generateTransactionSignature_Inr by blast
  have "(productHistory s)(pid \<mapsto> a) = productHistory s"
    using assms(1) by (simp add: map_upd_triv)
  then show ?thesis
    using assms
    by (simp add: recordRepair_unfold sig Let_def array_push_def append_tx_def)
qed

lemma append_tx_simps:
  "productHistory (append_tx a tx s) = productHistory s"
  "allTransactions (append_tx a tx s) = allTransactions s"
  "fresh (append_tx a tx s) = fresh s"
  by (simp_all add: append_tx_def array_push_def)

lemma heap_append_tx:
  "a \<noteq> allTransactions s \<Longrightarrow>
   heap (append_tx a tx s) =
     (heap s)(a := heap s a @ [tx], allTransactions s := heap s (allTransactions s) @ [tx])"
  by (simp add: append_tx_def array_push_def)

lemma append_tx_ok:
  assumes ok: "store_ok s" and ch: "chains_ok s"
    and a: "productHistory s pid = Some a"
    and t: "type tx = Transfer \<longrightarrow> previousOwner tx = Some (owner (last (heap s a)))"
    and r: "type tx = Repair \<longrightarrow> owner tx = owner (last (heap s a))"
  shows "store_ok (append_tx a tx s) \<and> chains_ok (append_tx a tx s)"
proof
  show "store_ok (append_tx a tx s)"
    using ok by (simp add: store_ok_def append_tx_simps)
  have na: "a \<noteq> allTransactions s"
    using store_ok_addr [OF ok a] by simp
  show "chains_ok (append_tx a tx s)"
    unfolding chains_ok_def
  proof (intro allI impI)
    fix p b
    assume "productHistory (append_tx a tx s) p = Some b"
    then have pb: "productHistory s p = Some b"
      by (simp add: append_tx_simps)
    show "chain_ok (heap (append_tx a tx s) b)"
    proof (cases "b = a")
      case True
      with na t r chains_okD [OF ch a] show ?thesis
        by (simp add: heap_append_tx chain_ok_snoc)
    next
      case False
      with na store_ok_addr [OF ok pb] chains_okD [OF ch pb] show ?thesis
        by (simp add: heap_append_tx)
    qed
  qed
qed

lemma createProduct_ok:
  assumes ok: "store_ok s" and ch: "chains_ok s"
  shows "store_ok (snd (createProduct e pid meta own s)) \<and>
         chains_ok (snd (createProduct e pid meta own s))"
proof (cases "productHistory s pid")
  case (Some a)
  with assms show ?thesis by (simp add: createProduct_duplicate)
next
  case None
  from createProduct_success [OF None, of e own meta]
  obtain sig tx where
    def: "tx = \<lparr>type = Manufacture, timestamp = Date_now e, owner = own, previousOwner = None,
           metadata = Some (case meta of None \<Rightarrow> [] | Some m \<Rightarrow> m), productId = pid,
           signature = sig\<rparr>"
    and eq: "createProduct e pid meta own s =
       (Inr \<lparr>receipt_signature = sig, receipt_account = Some (Keypair_generate e)\<rparr>,
        s\<lparr>heap := (heap s)(fresh s := [tx],
                            allTransactions s := ((heap s)(fresh s := [tx])) (allTransactions s) @ [tx]),
          fresh := fresh s + 1,
          productHistory := (productHistory s)(pid \<mapsto> fresh s)\<rparr>)"
    by blast
  have tx: "type tx = Manufacture" "previousOwner tx = None"
    by (simp_all add: def)
  have st: "snd (createProduct e pid meta own s) =
        s\<lparr>heap := (heap s)(fresh s := [tx],
                            allTransactions s := ((heap s)(fresh s := [tx])) (allTransactions s) @ [tx]),
          fresh := fresh s + 1,
          productHistory := (productHistory s)(pid \<mapsto> fresh s)\<rparr>"
    by (simp add: eq)
  have ne: "allTransactions s \<noteq> fresh s"
    using store_ok_log [OF ok] by simp
  have 1: "store_ok (snd (createProduct e pid meta own s))"
    unfolding store_ok_def st using None ne store_ok_log [OF ok]
    by (auto dest: store_ok_addr [OF ok] store_ok_inj [OF ok])
  have 2: "chains_ok (snd (createProduct e pid meta own s))"
    unfolding chains_ok_def st using None ne tx
    by (auto simp: chain_ok_def dest: store_ok_addr [OF ok] chains_okD [OF ch])
  from 1 2 show ?thesis ..
qed

lemma transferOwnership_ok:
  assumes ok: "store_ok s" and ch: "chains_ok s"
  shows "store_ok (snd (transferOwnership e pid cur nxt s)) \<and>
         chains_ok (snd (transferOwnership e pid cur nxt s))"
proof (cases "productHistory s pid")
  case None
  with assms show ?thesis by (simp add: transferOwnership_unknown)
next
  case (Some a)
  have ne: "heap s a \<noteq> []"
    using chains_okD [OF ch Some] by (simp add: chain_ok_def)
  show ?thesis
  proof (cases "owner (last (heap s a)) = cur")
    case False
    with assms Some ne show ?thesis by (simp add: transferOwnership_mismatch)
  next
    case True
    from transferOwnership_success [OF Some ne True, of e nxt]
    obtain sig tx where
      def: "tx = \<lparr>type = Transfer, timestamp = Date_now e, owner = nxt, previousOwner = Some cur,
           metadata = None, productId = pid, signature = sig\<rparr>"
      and eq: "transferOwnership e pid cur nxt s =
       (Inr \<lparr>receipt_signature = sig, receipt_account = None\<rparr>, append_tx a tx s)"
      by blast
    from True append_tx_ok [OF ok ch Some, of tx] show ?thesis
      by (simp add: eq) (simp add: def)
  qed
qed

lemma recordRepair_ok:
  assumes ok: "store_ok s" and ch: "chains_ok s"
  shows "store_ok (snd (recordRepair e pid own meta s)) \<and>
         chains_ok (snd (recordRepair e pid own meta s))"
proof (cases "productHistory s pid")
  case None
  with assms show ?thesis by (simp add: recordRepair_unknown)
next
  case (Some a)
  have ne: "heap s a \<noteq> []"
    using chains_okD [OF ch Some] by (simp add: chain_ok_def)
  show ?thesis
  proof (cases "owner (last (heap s a)) = own")
    case False
    with assms Some ne show ?thesis by (simp add: recordRepair_mismatch)
  next
    case True
    from recordRepair_success [OF Some ne True, of e meta]
    obtain sig tx where
      def: "tx = \<lparr>type = Repair, timestamp = Date_now e, owner = own, previousOwner = None,
           metadata = meta, productId = pid, signature = sig\<rparr>"
      and eq: "recordRepair e pid own meta s =
       (Inr \<lparr>receipt_signature = sig, receipt_account = None\<rparr>, append_tx a tx s)"
      by blast
    from True append_tx_ok [OF ok ch Some, of tx] show ?thesis
      by (simp add: eq) (simp add: def)
  qed
qed
(*>*)


section \<open>Queries only allocate\<close>

lemma owned_new_array: "owned s (new_array xs s) xs"
  by (simp add: owned_def new_array_def extends_def)

lemma owned_filter:
  "owned s p xs \<Longrightarrow> owned s (array_filter P (fst p) (snd p)) (filter P xs)"
  by (auto simp: owned_def array_filter_def new_array_def extends_def)

lemma owned_sort:
  "owned s p xs \<Longrightarrow> owned s (fst p, array_sort cmp (fst p) (snd p)) (sort_cmp cmp xs)"
  by (auto simp: owned_def array_sort_def extends_def)

lemma owned_reverse:
  "owned s p xs \<Longrightarrow> owned s (array_reverse (fst p) (snd p)) (rev xs)"
  by (auto simp: owned_def array_reverse_def extends_def)

lemma owned_slice:
  "owned s (array_slice a start s) (js_slice (heap s a) start)"
  by (simp add: array_slice_def owned_new_array)

lemma getAllTransactions_owned:
  "owned s (getAllTransactions (Some f) s)
     (sort_cmp (\<lambda>a b. timestamp b - timestamp a) (filter (tx_passes f) (heap s (allTransactions s))))"
proof -
  let ?log = "heap s (allTransactions s)"
  let ?K1 = "\<lambda>tx. case owner_filter f of
        None \<Rightarrow> True
      | Some w \<Rightarrow> w = [] \<or>
          (owner tx \<noteq> [] \<and> str_includes (toLowerCase (owner tx)) (toLowerCase w))"
  let ?K2 = "\<lambda>tx. case previousOwner_filter f of
        None \<Rightarrow> True
      | Some w \<Rightarrow> w = [] \<or>
          (case previousOwner tx of
             None \<Rightarrow> False
           | Some po \<Rightarrow> po \<noteq> [] \<and> str_includes (toLowerCase po) (toLowerCase w))"
  let ?K3 = "\<lambda>tx. case startTime f of None \<Rightarrow> True | Some b \<Rightarrow> number_value b = 0 \<or> timestamp tx \<ge> parseInt b"
  let ?K4 = "\<lambda>tx. case endTime f of None \<Rightarrow> True | Some b \<Rightarrow> number_value b = 0 \<or> timestamp tx \<le> parseInt b"
  define p0 where "p0 = new_array ?log s"
  define p1 where "p1 = (case owner_filter f of
               None \<Rightarrow> p0
             | Some w \<Rightarrow>
                 if w = [] then p0
                 else array_filter
                        (\<lambda>tx. owner tx \<noteq> [] \<and>
                              str_includes (toLowerCase (owner tx)) (toLowerCase w)) (fst p0) (snd p0))"
  define p2 where "p2 = (case previousOwner_filter f of
               None \<Rightarrow> p1
             | Some w \<Rightarrow>
                 if w = [] then p1
                 else array_filter
                        (\<lambda>tx. case previousOwner tx of
                                None \<Rightarrow> False
                              | Some po \<Rightarrow> po \<noteq> [] \<and>
                                  str_includes (toLowerCase po) (toLowerCase w)) (fst p1) (snd p1))"
  define p3 where "p3 = (case startTime f of
               None \<Rightarrow> p2
             | Some b \<Rightarrow>
                 if number_value b = 0 then p2
                 else array_filter (\<lambda>tx. timestamp tx \<ge> parseInt b) (fst p2) (snd p2))"
  define p4 where "p4 = (case endTime f of
               None \<Rightarrow> p3
             | Some b \<Rightarrow>
                 if number_value b = 0 then p3
                 else array_filter (\<lambda>tx. timestamp tx \<le> parseInt b) (fst p3) (snd p3))"
  have run: "getAllTransactions (Some f) s =
      (fst p4, array_sort (\<lambda>a b. timestamp b - timestamp a) (fst p4) (snd p4))"
    unfolding getAllTransactions_def p4_def p3_def p2_def p1_def p0_def
    by (simp only: Let_def split_def option.case prod.collapse)
  have 0: "owned s p0 ?log"
    unfolding p0_def by (rule owned_new_array)
  have 1: "owned s p1 (filter ?K1 ?log)"
    unfolding p1_def using 0 owned_filter [OF 0]
    by (simp split: option.split)
  have 2: "owned s p2 (filter ?K2 (filter ?K1 ?log))"
    unfolding p2_def using 1 owned_filter [OF 1]
    by (simp split: option.split)
  have 3: "owned s p3 (filter ?K3 (filter ?K2 (filter ?K1 ?log)))"
    unfolding p3_def using 2 owned_filter [OF 2]
    by (simp split: option.split)
  have 4: "owned s p4 (filter ?K4 (filter ?K3 (filter ?K2 (filter ?K1 ?log))))"
    unfolding p4_def using 3 owned_filter [OF 3]
    by (simp split: option.split)
  have "filter ?K4 (filter ?K3 (filter ?K2 (filter ?K1 ?log))) = filter (tx_passes f) ?log"
    unfolding filter_filter tx_passes_def by (rule filter_cong) auto
  with owned_sort [OF 4] show ?thesis
    by (simp add: run)
qed


lemma str_includes_sublist: "str_includes s t \<longleftrightarrow> sublist t s"
  by (induction s) (simp_all add: sublist_Cons_right)

lemma includes_ci_contains:
  "w \<noteq> [] \<Longrightarrow>
   (s \<noteq> [] \<and> str_includes (toLowerCase s) (toLowerCase w)) \<longleftrightarrow> ci_contains s w"
  by (cases s) (auto simp: str_includes_sublist ci_contains_def toLowerCase_def)

lemma tx_passes_spec: "tx_passes f tx \<longleftrightarrow> spec_matches (applied_filters f) tx"
proof -
  have o: "(case owner_filter f of
        None \<Rightarrow> True
      | Some w \<Rightarrow> w = [] \<or>
          (owner tx \<noteq> [] \<and> str_includes (toLowerCase (owner tx)) (toLowerCase w)))
     = (case owner_filter (applied_filters f) of
          None \<Rightarrow> True
        | Some w \<Rightarrow> ci_contains (owner tx) w)"
    by (simp add: applied_filters_def includes_ci_contains split: option.split)
  have p: "(case previousOwner_filter f of
        None \<Rightarrow> True
      | Some w \<Rightarrow> w = [] \<or>
          (case previousOwner tx of
             None \<Rightarrow> False
           | Some po \<Rightarrow> po \<noteq> [] \<and> str_includes (toLowerCase po) (toLowerCase w)))
     = (case previousOwner_filter (applied_filters f) of
          None \<Rightarrow> True
        | Some w \<Rightarrow> (case previousOwner tx of None \<Rightarrow> False | Some po \<Rightarrow> ci_contains po w))"
    by (simp add: applied_filters_def includes_ci_contains split: option.split)
  have s: "(case startTime f of None \<Rightarrow> True | Some b \<Rightarrow> number_value b = 0 \<or> timestamp tx \<ge> parseInt b)
     = (case startTime (applied_filters f) of None \<Rightarrow> True | Some b \<Rightarrow> number_value b \<le> timestamp tx)"
    by (simp add: applied_filters_def parseInt_def split: option.split)
  have e: "(case endTime f of None \<Rightarrow> True | Some b \<Rightarrow> number_value b = 0 \<or> timestamp tx \<le> parseInt b)
     = (case endTime (applied_filters f) of None \<Rightarrow> True | Some b \<Rightarrow> timestamp tx \<le> number_value b)"
    by (simp add: applied_filters_def parseInt_def split: option.split)
  show ?thesis
    unfolding tx_passes_def spec_matches_def o p s e ..
qed


lemma insort_cmp_timestamp:
  "insort_cmp (\<lambda>a b. timestamp b - timestamp a) x ys = insort_key (\<lambda>tx. - timestamp tx) x ys"
  by (induction ys) auto

lemma sort_cmp_timestamp:
  "sort_cmp (\<lambda>a b. timestamp b - timestamp a) xs = sort_key (\<lambda>tx. - timestamp tx) xs"
  unfolding sort_cmp_def sort_key_def
  by (induction xs) (simp_all add: insort_cmp_timestamp)

lemma sort_cmp_mset: "mset (sort_cmp (\<lambda>a b. timestamp b - timestamp a) xs) = mset xs"
  by (simp add: sort_cmp_timestamp)

lemma sort_cmp_descending:
  "sorted_wrt (\<lambda>a b. timestamp a \<ge> timestamp b) (sort_cmp (\<lambda>a b. timestamp b - timestamp a) xs)"
proof -
  have "sorted (map (\<lambda>tx. - timestamp tx) (sort_key (\<lambda>tx. - timestamp tx) xs))"
    by (rule sorted_sort_key)
  then show ?thesis
    by (simp add: sort_cmp_timestamp sorted_map)
qed

lemma sort_cmp_stable:
  "filter (\<lambda>tx. timestamp tx = t) (sort_cmp (\<lambda>a b. timestamp b - timestamp a) xs)
     = filter (\<lambda>tx. timestamp tx = t) xs"
  using sort_key_stable [of "\<lambda>tx. - timestamp tx" "- t" xs]
  by (simp add: sort_cmp_timestamp)

lemma getRecentTransactions_owned:
  "owned s (getRecentTransactions lim s)
     (rev (js_slice (heap s (allTransactions s)) (- (case lim of None \<Rightarrow> 10 | Some l \<Rightarrow> l))))"
  unfolding getRecentTransactions_def Let_def split_def
  by (rule owned_reverse) (rule owned_slice)

lemma getAllTransactions_default:
  "getAllTransactions None s =
   getAllTransactions (Some \<lparr>owner_filter = None, previousOwner_filter = None,
                               startTime = None, endTime = None\<rparr>) s"
  by (simp add: getAllTransactions_def)

lemma getAllTransactions_extends: "extends s (snd (getAllTransactions fo s))"
proof (cases fo)
  case None
  then show ?thesis
    using getAllTransactions_owned [of s] by (simp add: getAllTransactions_default owned_def)
next
  case (Some f)
  then show ?thesis
    using getAllTransactions_owned [of s f] by (simp add: owned_def)
qed

lemma getRecentTransactions_extends: "extends s (snd (getRecentTransactions lim s))"
  using getRecentTransactions_owned [of s lim] by (simp add: owned_def)

lemma getProductHistory_same: "snd (getProductHistory pid s) = s"
  by (simp add: getProductHistory_def split: option.split)


lemma extends_store_ok:
  assumes ex: "extends s s'" and ok: "store_ok s"
  shows "store_ok s'"
proof -
  from ex have ph: "productHistory s' = productHistory s"
    and at: "allTransactions s' = allTransactions s" and fr: "fresh s \<le> fresh s'"
    by (simp_all add: extends_def)
  have "allTransactions s' < fresh s'"
    using store_ok_log [OF ok] fr by (simp add: at)
  moreover have "a < fresh s' \<and> a \<noteq> allTransactions s'" if "productHistory s' p = Some a" for p a
    using store_ok_addr [OF ok, of p a] that fr by (simp add: ph at)
  moreover have "p = q" if "productHistory s' p = Some a" "productHistory s' q = Some a" for p q a
    using store_ok_inj [OF ok, of p a q] that by (simp add: ph)
  ultimately show ?thesis
    unfolding store_ok_def by blast
qed

lemma extends_GlobalLog: "extends s s' \<Longrightarrow> store_ok s \<Longrightarrow> GlobalLog s' = GlobalLog s"
  by (simp add: extends_def store_ok_def GlobalLog_def)

lemma extends_ProductChain:
  "extends s s' \<Longrightarrow> store_ok s \<Longrightarrow> ProductChain s' p = ProductChain s p"
  by (cases "productHistory s p") (auto simp: extends_def ProductChain_def dest: store_ok_addr)

lemma extends_chains_ok:
  assumes ex: "extends s s'" and ok: "store_ok s" and ch: "chains_ok s"
  shows "chains_ok s'"
  unfolding chains_ok_def
proof (intro allI impI)
  fix p a
  assume "productHistory s' p = Some a"
  with ex have pa: "productHistory s p = Some a"
    by (simp add: extends_def)
  with ex store_ok_addr [OF ok pa] have "heap s' a = heap s a"
    by (simp add: extends_def)
  with chains_okD [OF ch pa] show "chain_ok (heap s' a)" by simp
qed

lemma SolanaService_ok: "store_ok SolanaService \<and> chains_ok SolanaService"
  by (simp add: store_ok_def chains_ok_def SolanaService_def)

lemma sequential_ok: "sequential s \<Longrightarrow> store_ok s \<and> chains_ok s"
proof (induction rule: sequential.induct)
  case init
  show ?case by (rule SolanaService_ok)
next
  case (create s e pid meta own)
  then show ?case by (simp add: createProduct_ok)
next
  case (transfer s e pid cur nxt)
  then show ?case by (simp add: transferOwnership_ok)
next
  case (repair s e pid own meta)
  then show ?case by (simp add: recordRepair_ok)
next
  case (history s pid)
  then show ?case by (simp add: getProductHistory_same)
next
  case (recent s lim)
  then show ?case
    using getRecentTransactions_extends [of s lim]
    by (blast intro: extends_store_ok extends_chains_ok)
next
  case (query s fo)
  then show ?case
    using getAllTransactions_extends [of s fo]
    by (blast intro: extends_store_ok extends_chains_ok)
qed


section \<open>Calls that overlap\<close>

lemma running_okD:
  "running_ok s cs \<Longrightarrow> allTransactions s < fresh s"
  "running_ok s cs \<Longrightarrow> productHistory s p = Some a \<Longrightarrow> array_for s p a"
  "running_ok s cs \<Longrightarrow> c \<in> set cs \<Longrightarrow> call_ok s c"
  unfolding running_ok_def by blast+

lemma running_okI:
  "allTransactions s < fresh s \<Longrightarrow>
   (\<And>p a. productHistory s p = Some a \<Longrightarrow> array_for s p a) \<Longrightarrow>
   (\<And>c. c \<in> set cs \<Longrightarrow> call_ok s c) \<Longrightarrow> running_ok s cs"
  unfolding running_ok_def by blast

lemma call_ok_cong:
  assumes "\<And>pid a. array_for s pid a \<Longrightarrow> array_for s' pid a" and "call_ok s c"
  shows "call_ok s' c"
  using assms by (cases c) simp_all

lemma before_await_Inr:
  "transferOwnership_before_await pid cur s = Inr h \<Longrightarrow> productHistory s pid = Some h"
  "recordRepair_before_await pid own s = Inr h \<Longrightarrow> productHistory s pid = Some h"
  by (auto simp: transferOwnership_before_await_def recordRepair_before_await_def Let_def
      split: option.splits if_splits)

lemma createProduct_after_await_state:
  "\<exists>sig tx.
     tx = \<lparr>type = Manufacture, timestamp = Date_now e, owner = own, previousOwner = None,
           metadata = Some (case meta of None \<Rightarrow> [] | Some m \<Rightarrow> m), productId = pid,
           signature = sig\<rparr> \<and>
     createProduct_after_await e pid meta own s =
       (Inr \<lparr>receipt_signature = sig, receipt_account = Some (Keypair_generate e)\<rparr>,
        s\<lparr>heap := (heap s)(fresh s := [tx],
                            allTransactions s := ((heap s)(fresh s := [tx])) (allTransactions s) @ [tx]),
          fresh := fresh s + 1,
          productHistory := (productHistory s)(pid \<mapsto> fresh s)\<rparr>)"
proof -
  obtain sig where sig: "\<And>d. generateTransactionSignature e d = Inr sig"
    using generateTransactionSignature_Inr by blast
  show ?thesis
    by (simp add: createProduct_after_await_def sig Let_def new_array_def array_push_def)
qed

lemma transferOwnership_after_await_state:
  "\<exists>sig tx.
     tx = \<lparr>type = Transfer, timestamp = Date_now e, owner = nxt, previousOwner = Some cur,
           metadata = None, productId = pid, signature = sig\<rparr> \<and>
     transferOwnership_after_await e pid cur nxt h s =
       (Inr \<lparr>receipt_signature = sig, receipt_account = None\<rparr>,
        (append_tx h tx s)\<lparr>productHistory := (productHistory s)(pid \<mapsto> h)\<rparr>)"
proof -
  obtain sig where sig: "\<And>d. generateTransactionSignature e d = Inr sig"
    using generateTransactionSignature_Inr by blast
  show ?thesis
    by (simp add: transferOwnership_after_await_def sig Let_def array_push_def append_tx_def)
qed

lemma recordRepair_after_await_state:
  "\<exists>sig tx.
     tx = \<lparr>type = Repair, timestamp = Date_now e, owner = own, previousOwner = None,
           metadata = meta, productId = pid, signature = sig\<rparr> \<and>
     recordRepair_after_await e pid own meta h s =
       (Inr \<lparr>receipt_signature = sig, receipt_account = None\<rparr>,
        (append_tx h tx s)\<lparr>productHistory := (productHistory s)(pid \<mapsto> h)\<rparr>)"
proof -
  obtain sig where sig: "\<And>d. generateTransactionSignature e d = Inr sig"
    using generateTransactionSignature_Inr by blast
  show ?thesis
    by (simp add: recordRepair_after_await_def sig Let_def array_push_def append_tx_def)
qed

lemma array_for_append_tx:
  assumes h: "array_for s pid h" and a: "array_for s p a"
  shows "array_for ((append_tx h tx s)\<lparr>productHistory := m\<rparr>) p a"
proof -
  from h have "h \<noteq> allTransactions s" by (simp add: array_for_def)
  then have hp: "heap (append_tx h tx s) =
      (heap s)(h := heap s h @ [tx], allTransactions s := heap s (allTransactions s) @ [tx])"
    by (rule heap_append_tx)
  from a show ?thesis
    by (auto simp: array_for_def hp append_tx_simps)
qed

lemma running_ok_append_tx:
  assumes ok: "running_ok s cs" and h: "array_for s pid h"
  shows "running_ok ((append_tx h tx s)\<lparr>productHistory := (productHistory s)(pid \<mapsto> h)\<rparr>)
           (remove1 c cs)"
proof (rule running_okI)
  let ?s' = "(append_tx h tx s)\<lparr>productHistory := (productHistory s)(pid \<mapsto> h)\<rparr>"
  show "allTransactions ?s' < fresh ?s'"
    using running_okD(1) [OF ok] by (simp add: append_tx_simps)
  show "array_for ?s' p a" if "productHistory ?s' p = Some a" for p a
  proof (cases "p = pid")
    case True
    with that have "a = h" by simp
    with True array_for_append_tx [OF h h] show ?thesis by simp
  next
    case False
    with that have "productHistory s p = Some a" by simp
    from array_for_append_tx [OF h running_okD(2) [OF ok this]] show ?thesis .
  qed
  show "call_ok ?s' d" if "d \<in> set (remove1 c cs)" for d
  proof -
    from that have "d \<in> set cs" using set_remove1_subset [of c cs] by blast
    from running_okD(3) [OF ok this] show ?thesis
      by (rule call_ok_cong [rotated]) (rule array_for_append_tx [OF h])
  qed
qed

lemma array_for_extends:
  assumes "extends s s'" and "array_for s pid a"
  shows "array_for s' pid a"
  using assms by (auto simp: extends_def array_for_def)

lemma running_ok_extends:
  assumes ex: "extends s s'" and ok: "running_ok s cs"
  shows "running_ok s' cs"
proof (rule running_okI)
  show "allTransactions s' < fresh s'"
    using running_okD(1) [OF ok] ex by (simp add: extends_def)
  show "array_for s' p a" if "productHistory s' p = Some a" for p a
  proof -
    from that ex have "productHistory s p = Some a" by (simp add: extends_def)
    from array_for_extends [OF ex running_okD(2) [OF ok this]] show ?thesis .
  qed
  show "call_ok s' c" if "c \<in> set cs" for c
    using running_okD(3) [OF ok that]
    by (rule call_ok_cong [rotated]) (rule array_for_extends [OF ex])
qed

lemma running_ok_create:
  assumes ok: "running_ok s cs"
  shows "running_ok (snd (createProduct_after_await e pid meta own s)) (remove1 c cs)"
proof -
  from createProduct_after_await_state [where e = e and own = own and meta = meta and pid = pid and s = s]
  obtain sig tx where
    def: "tx = \<lparr>type = Manufacture, timestamp = Date_now e, owner = own, previousOwner = None,
           metadata = Some (case meta of None \<Rightarrow> [] | Some m \<Rightarrow> m), productId = pid,
           signature = sig\<rparr>"
    and eq: "createProduct_after_await e pid meta own s =
       (Inr \<lparr>receipt_signature = sig, receipt_account = Some (Keypair_generate e)\<rparr>,
        s\<lparr>heap := (heap s)(fresh s := [tx],
                            allTransactions s := ((heap s)(fresh s := [tx])) (allTransactions s) @ [tx]),
          fresh := fresh s + 1,
          productHistory := (productHistory s)(pid \<mapsto> fresh s)\<rparr>)"
    by blast
  let ?s' = "s\<lparr>heap := (heap s)(fresh s := [tx],
                            allTransactions s := ((heap s)(fresh s := [tx])) (allTransactions s) @ [tx]),
          fresh := fresh s + 1,
          productHistory := (productHistory s)(pid \<mapsto> fresh s)\<rparr>"
  have lt: "allTransactions s < fresh s" by (rule running_okD(1) [OF ok])
  have keep: "array_for ?s' p a" if "array_for s p a" for p a
    using that lt by (auto simp: array_for_def)
  have new: "array_for ?s' pid (fresh s)"
    using lt by (simp add: array_for_def def)
  have "running_ok ?s' (remove1 c cs)"
  proof (rule running_okI)
    show "allTransactions ?s' < fresh ?s'" using lt by simp
    show "array_for ?s' p a" if "productHistory ?s' p = Some a" for p a
    proof (cases "p = pid")
      case True
      with that new show ?thesis by simp
    next
      case False
      with that have "productHistory s p = Some a" by simp
      from keep [OF running_okD(2) [OF ok this]] show ?thesis .
    qed
    show "call_ok ?s' d" if "d \<in> set (remove1 c cs)" for d
    proof -
      from that have "d \<in> set cs" using set_remove1_subset [of c cs] by blast
      from running_okD(3) [OF ok this] show ?thesis
        by (rule call_ok_cong [rotated]) (rule keep)
    qed
  qed
  then show ?thesis by (simp add: eq)
qed

lemma running_ok_transfer:
  assumes ok: "running_ok s cs" and h: "array_for s pid h"
  shows "running_ok (snd (transferOwnership_after_await e pid cur nxt h s)) (remove1 c cs)"
proof -
  from transferOwnership_after_await_state [where e = e and nxt = nxt and cur = cur and pid = pid and h = h and s = s]
  obtain sig tx where "transferOwnership_after_await e pid cur nxt h s =
       (Inr \<lparr>receipt_signature = sig, receipt_account = None\<rparr>,
        (append_tx h tx s)\<lparr>productHistory := (productHistory s)(pid \<mapsto> h)\<rparr>)"
    by blast
  with running_ok_append_tx [OF ok h, of tx c] show ?thesis by simp
qed

lemma running_ok_repair:
  assumes ok: "running_ok s cs" and h: "array_for s pid h"
  shows "running_ok (snd (recordRepair_after_await e pid own meta h s)) (remove1 c cs)"
proof -
  from recordRepair_after_await_state [where e = e and own = own and meta = meta and pid = pid and h = h and s = s]
  obtain sig tx where "recordRepair_after_await e pid own meta h s =
       (Inr \<lparr>receipt_signature = sig, receipt_account = None\<rparr>,
        (append_tx h tx s)\<lparr>productHistory := (productHistory s)(pid \<mapsto> h)\<rparr>)"
    by blast
  with running_ok_append_tx [OF ok h, of tx c] show ?thesis by simp
qed

lemma running_running_ok: "running s cs \<Longrightarrow> running_ok s cs"
proof (induction rule: running.induct)
  case init
  show ?case by (simp add: running_ok_def SolanaService_def)
next
  case (create_begin s cs pid meta own)
  then show ?case by (simp add: running_ok_def)
next
  case (create_end s cs pid meta own e)
  then show ?case by (simp add: running_ok_create)
next
  case (transfer_begin s cs pid cur history nxt)
  from running_okD(2) [OF transfer_begin.IH before_await_Inr(1) [OF transfer_begin.hyps(2)]]
    transfer_begin.IH
  show ?case by (simp add: running_ok_def)
next
  case (transfer_end s cs pid cur nxt history e)
  from running_okD(3) [OF transfer_end.IH transfer_end.hyps(2)]
  have "array_for s pid history" by simp
  with transfer_end.IH show ?case by (rule running_ok_transfer)
next
  case (repair_begin s cs pid own history meta)
  from running_okD(2) [OF repair_begin.IH before_await_Inr(2) [OF repair_begin.hyps(2)]]
    repair_begin.IH
  show ?case by (simp add: running_ok_def)
next
  case (repair_end s cs pid own meta history e)
  from running_okD(3) [OF repair_end.IH repair_end.hyps(2)]
  have "array_for s pid history" by simp
  with repair_end.IH show ?case by (rule running_ok_repair)
next
  case (history s cs pid)
  then show ?case by (simp add: getProductHistory_same)
next
  case (recent s cs lim)
  show ?case by (rule running_ok_extends [OF getRecentTransactions_extends recent.IH])
next
  case (query s cs fo)
  show ?case by (rule running_ok_extends [OF getAllTransactions_extends query.IH])
qed

lemma reachable_store_ok: "reachable s \<Longrightarrow> store_ok s"
proof -
  assume "reachable s"
  then obtain cs where "running s cs" by (auto simp: reachable_def)
  then have ok: "running_ok s cs" by (rule running_running_ok)
  have "p = q" if "productHistory s p = Some a" "productHistory s q = Some a" for p q a
    using running_okD(2) [OF ok that(1)] running_okD(2) [OF ok that(2)]
    by (simp add: array_for_def)
  moreover have "a < fresh s \<and> a \<noteq> allTransactions s" if "productHistory s p = Some a" for p a
    using running_okD(2) [OF ok that] by (simp add: array_for_def)
  ultimately show "store_ok s"
    unfolding store_ok_def using running_okD(1) [OF ok] by blast
qed

lemma reachable_nonempty:
  assumes "reachable s" and "ProductChain s p = Some c"
  shows "c \<noteq> [] \<and> productId (hd c) = p"
proof -
  from assms(1) obtain cs where "running s cs" by (auto simp: reachable_def)
  then have ok: "running_ok s cs" by (rule running_running_ok)
  from assms(2) obtain a where "productHistory s p = Some a" "c = heap s a"
    by (auto simp: ProductChain_def)
  with running_okD(2) [OF ok this(1)] show ?thesis
    by (simp add: array_for_def)
qed

lemma sequential_running: "sequential s \<Longrightarrow> running s []"
proof (induction rule: sequential.induct)
  case init
  show ?case by (rule running.init)
next
  case (create s e pid meta own)
  show ?case
  proof (cases "createProduct_before_await pid s")
    case (Inl err)
    with create.IH show ?thesis by (simp add: createProduct_def)
  next
    case (Inr u)
    then have "running s [CreateProduct pid meta own]"
      using running.create_begin [OF create.IH, of pid meta own] by simp
    from running.create_end [OF this, of pid meta own e] Inr show ?thesis
      by (simp add: createProduct_def)
  qed
next
  case (transfer s e pid cur nxt)
  show ?case
  proof (cases "transferOwnership_before_await pid cur s")
    case (Inl err)
    with transfer.IH show ?thesis by (simp add: transferOwnership_def)
  next
    case (Inr h)
    from running.transfer_end [OF running.transfer_begin [OF transfer.IH Inr, of nxt],
        of pid cur nxt h e] Inr
    show ?thesis by (simp add: transferOwnership_def)
  qed
next
  case (repair s e pid own meta)
  show ?case
  proof (cases "recordRepair_before_await pid own s")
    case (Inl err)
    with repair.IH show ?thesis by (simp add: recordRepair_def)
  next
    case (Inr h)
    from running.repair_end [OF running.repair_begin [OF repair.IH Inr, of meta],
        of pid own meta h e] Inr
    show ?thesis by (simp add: recordRepair_def)
  qed
next
  case (history s pid)
  show ?case by (rule running.history [OF history.IH])
next
  case (recent s lim)
  show ?case by (rule running.recent [OF recent.IH])
next
  case (query s fo)
  show ?case by (rule running.query [OF query.IH])
qed

lemma sequential_reachable: "sequential s \<Longrightarrow> reachable s"
  unfolding reachable_def using sequential_running by blast

section \<open>The claims on the store\<close>

lemma sequential_chain:
  assumes "sequential s" and "ProductChain s p = Some c"
  shows "chain_ok c"
proof -
  from assms(2) obtain a where "productHistory s p = Some a" "c = heap s a"
    by (auto simp: ProductChain_def)
  with sequential_ok [OF assms(1)] show ?thesis
    by (simp add: chains_okD)
qed

text \<open>
  The chain of custody when no two calls overlap: in every store reached by calls
  that each run to their end before the next starts, every product chain is
  non-empty, its first record is a \<open>Manufacture\<close> without \<open>previousOwner\<close>, and each
  record after the first continues the one before it: a \<open>Transfer\<close> names the
  preceding owner as its \<open>previousOwner\<close>, a \<open>Repair\<close> keeps the preceding owner.
\<close>

theorem chain_of_custody_without_overlap:
  assumes "sequential s" and "ProductChain s p = Some c"
  shows "c \<noteq> [] \<and> type (hd c) = Manufacture \<and> previousOwner (hd c) = None \<and>
     (\<forall>i. Suc i < length c \<longrightarrow>
        (type (c ! Suc i) = Transfer \<longrightarrow> previousOwner (c ! Suc i) = Some (owner (c ! i))) \<and>
        (type (c ! Suc i) = Repair \<longrightarrow> owner (c ! Suc i) = owner (c ! i)))"
  using sequential_chain [OF assms] custody_nth [of c]
  by (simp add: chain_ok_def)

lemma generateTransactionSignature_anchored:
  "generateTransactionSignature (anchored sig t) d = Inr sig"
  by (simp add: generateTransactionSignature_def try_block_def anchored_def)

lemma bike1_eval:
  "bike1 = \<lparr>heap = (\<lambda>a. [])
      (1 := [\<lparr>type = Manufacture, timestamp = 1000, owner = ''A'', previousOwner = None,
             metadata = Some [], productId = ''BIKE-001'', signature = ''s1''\<rparr>],
       0 := [\<lparr>type = Manufacture, timestamp = 1000, owner = ''A'', previousOwner = None,
             metadata = Some [], productId = ''BIKE-001'', signature = ''s1''\<rparr>]),
     fresh = 2, productHistory = [''BIKE-001'' \<mapsto> 1], allTransactions = 0\<rparr>"
  by (simp add: bike1_def createProduct_unfold SolanaService_def generateTransactionSignature_anchored
      Let_def new_array_def array_push_def) (simp add: anchored_def)

lemma bike2_eval:
  "bike2 = \<lparr>heap = (\<lambda>a. [])
      (1 := [\<lparr>type = Manufacture, timestamp = 1000, owner = ''A'', previousOwner = None,
             metadata = Some [], productId = ''BIKE-001'', signature = ''s1''\<rparr>,
            \<lparr>type = Transfer, timestamp = 2000, owner = ''B'', previousOwner = Some ''A'',
             metadata = None, productId = ''BIKE-001'', signature = ''s2''\<rparr>],
       0 := [\<lparr>type = Manufacture, timestamp = 1000, owner = ''A'', previousOwner = None,
             metadata = Some [], productId = ''BIKE-001'', signature = ''s1''\<rparr>,
            \<lparr>type = Transfer, timestamp = 2000, owner = ''B'', previousOwner = Some ''A'',
             metadata = None, productId = ''BIKE-001'', signature = ''s2''\<rparr>]),
     fresh = 2, productHistory = [''BIKE-001'' \<mapsto> 1], allTransactions = 0\<rparr>"
  by (simp add: bike2_def bike1_eval transferOwnership_unfold generateTransactionSignature_anchored
      Let_def array_push_def fun_upd_twist) (simp add: anchored_def)

lemma sequential_bike2: "sequential bike2"
  unfolding bike2_def bike1_def by (intro sequential.intros)

lemma reachable_bike2: "reachable bike2"
  by (rule sequential_reachable [OF sequential_bike2])

theorem chain_of_custody_without_overlap_witness:
  "sequential bike2 \<and>
   ProductChain bike2 ''BIKE-001'' =
     Some [\<lparr>type = Manufacture, timestamp = 1000, owner = ''A'', previousOwner = None,
             metadata = Some [], productId = ''BIKE-001'', signature = ''s1''\<rparr>,
            \<lparr>type = Transfer, timestamp = 2000, owner = ''B'', previousOwner = Some ''A'',
             metadata = None, productId = ''BIKE-001'', signature = ''s2''\<rparr>]"
proof -
  have c: "ProductChain bike2 ''BIKE-001'' =
     Some [\<lparr>type = Manufacture, timestamp = 1000, owner = ''A'', previousOwner = None,
             metadata = Some [], productId = ''BIKE-001'', signature = ''s1''\<rparr>,
            \<lparr>type = Transfer, timestamp = 2000, owner = ''B'', previousOwner = Some ''A'',
             metadata = None, productId = ''BIKE-001'', signature = ''s2''\<rparr>]"
    by (simp add: ProductChain_def bike2_eval)
  from chain_of_custody_without_overlap [OF sequential_bike2 c] sequential_bike2 c show ?thesis
    by simp
qed

lemma sublist_message:
  "sublist actual (''Ownership verification failed. Current owner is '' @ actual @ '', not '' @ supplied)"
  "sublist supplied (''Ownership verification failed. Current owner is '' @ actual @ '', not '' @ supplied)"
proof -
  show "sublist actual (''Ownership verification failed. Current owner is '' @ actual @ '', not '' @ supplied)"
    by (rule sublist_appendI)
  have "sublist supplied ((''Ownership verification failed. Current owner is '' @ actual @ '', not '') @ supplied @ [])"
    by (rule sublist_appendI)
  then show "sublist supplied (''Ownership verification failed. Current owner is '' @ actual @ '', not '' @ supplied)"
    by simp
qed

text \<open>
  Claim C2. For a product whose chain exists, \<open>transferOwnership\<close> and \<open>recordRepair\<close>
  called with an owner other than the chain's current owner (the owner of its last
  record) fail with \<open>OwnershipMismatch\<close>; the message contains the current owner and
  the supplied one; and the store is left as it was, so the chain and the GlobalLog
  are unchanged.
\<close>

theorem ownership_mismatch_rejected:
  assumes "reachable s" and "ProductChain s pid = Some c" and "supplied \<noteq> owner (last c)"
  shows "transferOwnership e pid supplied nxt s =
           (Inl (OwnershipMismatch (owner (last c)) supplied), s) \<and>
         recordRepair e pid supplied meta s =
           (Inl (OwnershipMismatch (owner (last c)) supplied), s) \<and>
         (\<exists>message. OwnershipMismatch (owner (last c)) supplied = Error message \<and>
            sublist (owner (last c)) message \<and> sublist supplied message) \<and>
         ProductChain (snd (transferOwnership e pid supplied nxt s)) pid = Some c \<and>
         GlobalLog (snd (transferOwnership e pid supplied nxt s)) = GlobalLog s \<and>
         ProductChain (snd (recordRepair e pid supplied meta s)) pid = Some c \<and>
         GlobalLog (snd (recordRepair e pid supplied meta s)) = GlobalLog s"
proof -
  from assms(2) obtain a where a: "productHistory s pid = Some a" and c: "c = heap s a"
    by (auto simp: ProductChain_def)
  have ne: "heap s a \<noteq> []"
    using reachable_nonempty [OF assms(1,2)] c by simp
  have neq: "owner (last (heap s a)) \<noteq> supplied"
    using assms(3) c by simp
  have t: "transferOwnership e pid supplied nxt s =
           (Inl (OwnershipMismatch (owner (last c)) supplied), s)"
    using transferOwnership_mismatch [OF a ne neq] by (simp add: OwnershipMismatch_def c)
  have r: "recordRepair e pid supplied meta s =
           (Inl (OwnershipMismatch (owner (last c)) supplied), s)"
    using recordRepair_mismatch [OF a ne neq] by (simp add: OwnershipMismatch_def c)
  have m: "\<exists>message. OwnershipMismatch (owner (last c)) supplied = Error message \<and>
            sublist (owner (last c)) message \<and> sublist supplied message"
    unfolding OwnershipMismatch_def using sublist_message by blast
  from t r m assms(2) show ?thesis by simp
qed

theorem ownership_mismatch_rejected_witness:
  "reachable bike2 \<and>
   transferOwnership (anchored ''s3'' 3000) ''BIKE-001'' ''A'' ''C'' bike2 =
     (Inl (Error ''Ownership verification failed. Current owner is B, not A''), bike2) \<and>
   recordRepair (anchored ''s3'' 3000) ''BIKE-001'' ''A'' None bike2 =
     (Inl (Error ''Ownership verification failed. Current owner is B, not A''), bike2)"
proof -
  have c: "ProductChain bike2 ''BIKE-001'' =
     Some [\<lparr>type = Manufacture, timestamp = 1000, owner = ''A'', previousOwner = None,
             metadata = Some [], productId = ''BIKE-001'', signature = ''s1''\<rparr>,
            \<lparr>type = Transfer, timestamp = 2000, owner = ''B'', previousOwner = Some ''A'',
             metadata = None, productId = ''BIKE-001'', signature = ''s2''\<rparr>]"
    by (simp add: ProductChain_def bike2_eval)
  have n: "''A'' \<noteq> owner (last [\<lparr>type = Manufacture, timestamp = 1000, owner = ''A'', previousOwner = None,
             metadata = Some [], productId = ''BIKE-001'', signature = ''s1''\<rparr>,
            \<lparr>type = Transfer, timestamp = 2000, owner = ''B'', previousOwner = Some ''A'',
             metadata = None, productId = ''BIKE-001'', signature = ''s2''\<rparr>])"
    by simp
  from ownership_mismatch_rejected [OF reachable_bike2 c n, of "anchored ''s3'' 3000" "''C''" None]
    reachable_bike2
  show ?thesis
    by (simp add: OwnershipMismatch_def)
qed

lemma sequential_bike1: "sequential bike1"
  unfolding bike1_def by (intro sequential.intros)

lemma sequential_bike3: "sequential bike3"
  unfolding bike3_def bike2_def bike1_def by (intro sequential.intros)

lemma sequential_skewed: "sequential skewed"
  unfolding skewed_def bike1_def by (intro sequential.intros)

lemma reachable_scenario:
  "reachable SolanaService" "reachable bike1" "reachable bike3" "reachable skewed"
  by (rule sequential_reachable, rule sequential.init)
    (rule sequential_reachable, rule sequential_bike1 sequential_bike3 sequential_skewed)+

lemma bike3_eval:
  "bike3 = \<lparr>heap = (\<lambda>a. [])
      (1 := [\<lparr>type = Manufacture, timestamp = 1000, owner = ''A'', previousOwner = None,
             metadata = Some [], productId = ''BIKE-001'', signature = ''s1''\<rparr>,
            \<lparr>type = Transfer, timestamp = 2000, owner = ''B'', previousOwner = Some ''A'',
             metadata = None, productId = ''BIKE-001'', signature = ''s2''\<rparr>,
            \<lparr>type = Repair, timestamp = 3000, owner = ''B'', previousOwner = None,
             metadata = Some ''brake service'', productId = ''BIKE-001'', signature = ''s3''\<rparr>],
       0 := [\<lparr>type = Manufacture, timestamp = 1000, owner = ''A'', previousOwner = None,
             metadata = Some [], productId = ''BIKE-001'', signature = ''s1''\<rparr>,
            \<lparr>type = Transfer, timestamp = 2000, owner = ''B'', previousOwner = Some ''A'',
             metadata = None, productId = ''BIKE-001'', signature = ''s2''\<rparr>,
            \<lparr>type = Repair, timestamp = 3000, owner = ''B'', previousOwner = None,
             metadata = Some ''brake service'', productId = ''BIKE-001'', signature = ''s3''\<rparr>]),
     fresh = 2, productHistory = [''BIKE-001'' \<mapsto> 1], allTransactions = 0\<rparr>"
  by (simp add: bike3_def bike2_eval recordRepair_unfold generateTransactionSignature_anchored
      Let_def array_push_def fun_upd_twist) (simp add: anchored_def)

lemma skewed_eval:
  "skewed = \<lparr>heap = (\<lambda>a. [])
      (1 := [\<lparr>type = Manufacture, timestamp = 1000, owner = ''A'', previousOwner = None,
             metadata = Some [], productId = ''BIKE-001'', signature = ''s1''\<rparr>],
       2 := [\<lparr>type = Manufacture, timestamp = 500, owner = ''A'', previousOwner = None,
             metadata = Some [], productId = ''BIKE-002'', signature = ''s2''\<rparr>],
       0 := [\<lparr>type = Manufacture, timestamp = 1000, owner = ''A'', previousOwner = None,
             metadata = Some [], productId = ''BIKE-001'', signature = ''s1''\<rparr>,
            \<lparr>type = Manufacture, timestamp = 500, owner = ''A'', previousOwner = None,
             metadata = Some [], productId = ''BIKE-002'', signature = ''s2''\<rparr>]),
     fresh = 3, productHistory = [''BIKE-001'' \<mapsto> 1, ''BIKE-002'' \<mapsto> 2], allTransactions = 0\<rparr>"
  by (simp add: skewed_def bike1_eval createProduct_unfold generateTransactionSignature_anchored
      Let_def new_array_def array_push_def fun_upd_twist) (simp add: anchored_def)

lemma raced_eval:
  "raced = \<lparr>heap = (\<lambda>a. [])
      (1 := [\<lparr>type = Manufacture, timestamp = 1000, owner = ''A'', previousOwner = None,
             metadata = Some [], productId = ''BIKE-001'', signature = ''s1''\<rparr>,
            \<lparr>type = Transfer, timestamp = 2000, owner = ''B'', previousOwner = Some ''A'',
             metadata = None, productId = ''BIKE-001'', signature = ''s2''\<rparr>,
            \<lparr>type = Transfer, timestamp = 3000, owner = ''C'', previousOwner = Some ''A'',
             metadata = None, productId = ''BIKE-001'', signature = ''s3''\<rparr>],
       0 := [\<lparr>type = Manufacture, timestamp = 1000, owner = ''A'', previousOwner = None,
             metadata = Some [], productId = ''BIKE-001'', signature = ''s1''\<rparr>,
            \<lparr>type = Transfer, timestamp = 2000, owner = ''B'', previousOwner = Some ''A'',
             metadata = None, productId = ''BIKE-001'', signature = ''s2''\<rparr>,
            \<lparr>type = Transfer, timestamp = 3000, owner = ''C'', previousOwner = Some ''A'',
             metadata = None, productId = ''BIKE-001'', signature = ''s3''\<rparr>]),
     fresh = 2, productHistory = [''BIKE-001'' \<mapsto> 1], allTransactions = 0\<rparr>"
  by (simp add: raced_def bike1_eval transferOwnership_after_await_def
      generateTransactionSignature_anchored Let_def array_push_def fun_upd_twist)
    (simp add: anchored_def)

lemma both_checks_pass: "transferOwnership_before_await ''BIKE-001'' ''A'' bike1 = Inr 1"
  by (simp add: transferOwnership_before_await_def bike1_eval Let_def)

lemma reachable_raced: "reachable raced"
proof -
  have 0: "running bike1 []"
    by (rule sequential_running [OF sequential_bike1])
  have 1: "running bike1 [TransferOwnership ''BIKE-001'' ''A'' ''B'' 1]"
    by (rule running.transfer_begin [OF 0 both_checks_pass])
  have 2: "running bike1 [TransferOwnership ''BIKE-001'' ''A'' ''C'' 1,
      TransferOwnership ''BIKE-001'' ''A'' ''B'' 1]"
    by (rule running.transfer_begin [OF 1 both_checks_pass])
  have 3: "running
      (snd (transferOwnership_after_await (anchored ''s2'' 2000) ''BIKE-001'' ''A'' ''B'' 1 bike1))
      [TransferOwnership ''BIKE-001'' ''A'' ''C'' 1]"
    using running.transfer_end [OF 2, of "''BIKE-001''" "''A''" "''B''" 1 "anchored ''s2'' 2000"]
    by simp
  have "running raced []"
    using running.transfer_end [OF 3, of "''BIKE-001''" "''A''" "''C''" 1 "anchored ''s3'' 3000"]
    by (simp add: raced_def)
  then show ?thesis
    unfolding reachable_def ..
qed

text \<open>
  Claim C1. The chain-of-custody invariant is to hold in every store the service
  reaches: each \<open>Transfer\<close> names the owner of the record before it as its
  \<open>previousOwner\<close>. The code checks the owner before its \<open>await\<close> and pushes after it,
  so two transfers by the same owner that overlap both pass the check and both push.
  The store \<open>raced\<close> is reached that way, and in its chain the transfer to \<open>C\<close> names
  \<open>A\<close> as previous owner while the record before it makes \<open>B\<close> the owner.
\<close>

theorem overlapping_transfers_break_custody:
  "transferOwnership_before_await ''BIKE-001'' ''A'' bike1 = Inr 1 \<and>
   reachable raced \<and>
   ProductChain raced ''BIKE-001'' =
     Some [\<lparr>type = Manufacture, timestamp = 1000, owner = ''A'', previousOwner = None,
             metadata = Some [], productId = ''BIKE-001'', signature = ''s1''\<rparr>,
            \<lparr>type = Transfer, timestamp = 2000, owner = ''B'', previousOwner = Some ''A'',
             metadata = None, productId = ''BIKE-001'', signature = ''s2''\<rparr>,
            \<lparr>type = Transfer, timestamp = 3000, owner = ''C'', previousOwner = Some ''A'',
             metadata = None, productId = ''BIKE-001'', signature = ''s3''\<rparr>] \<and>
   \<not> chain_ok
     [\<lparr>type = Manufacture, timestamp = 1000, owner = ''A'', previousOwner = None,
             metadata = Some [], productId = ''BIKE-001'', signature = ''s1''\<rparr>,
            \<lparr>type = Transfer, timestamp = 2000, owner = ''B'', previousOwner = Some ''A'',
             metadata = None, productId = ''BIKE-001'', signature = ''s2''\<rparr>,
            \<lparr>type = Transfer, timestamp = 3000, owner = ''C'', previousOwner = Some ''A'',
             metadata = None, productId = ''BIKE-001'', signature = ''s3''\<rparr>]"
  using both_checks_pass reachable_raced
  by (simp add: ProductChain_def raced_eval chain_ok_def)

text \<open>
  Claim C3. For a product id not yet in the store, \<open>createProduct\<close> succeeds: the
  product's chain is the one new record, of type \<open>Manufacture\<close> and owned by the
  manufacturer, and the same record is appended to the GlobalLog. A second call with
  that product id, whatever its other arguments, fails with \<open>DuplicateProduct\<close> and
  leaves the store unchanged.
\<close>

theorem createProduct_then_duplicate:
  assumes "reachable s" and "ProductChain s pid = None"
  shows "\<exists>r tx s'.
     createProduct e pid meta own s = (Inr r, s') \<and>
     ProductChain s' pid = Some [tx] \<and> type tx = Manufacture \<and> owner tx = own \<and>
     GlobalLog s' = GlobalLog s @ [tx] \<and>
     createProduct e' pid meta' own' s' = (Inl DuplicateProduct, s')"
proof -
  from assms(2) have none: "productHistory s pid = None"
    by (simp add: ProductChain_def)
  have ne: "allTransactions s \<noteq> fresh s"
    using store_ok_log [OF reachable_store_ok [OF assms(1)]] by simp
  from createProduct_success [OF none, of e own meta]
  obtain sig tx where
    def: "tx = \<lparr>type = Manufacture, timestamp = Date_now e, owner = own, previousOwner = None,
           metadata = Some (case meta of None \<Rightarrow> [] | Some m \<Rightarrow> m), productId = pid,
           signature = sig\<rparr>"
    and eq: "createProduct e pid meta own s =
       (Inr \<lparr>receipt_signature = sig, receipt_account = Some (Keypair_generate e)\<rparr>,
        s\<lparr>heap := (heap s)(fresh s := [tx],
                            allTransactions s := ((heap s)(fresh s := [tx])) (allTransactions s) @ [tx]),
          fresh := fresh s + 1,
          productHistory := (productHistory s)(pid \<mapsto> fresh s)\<rparr>)"
    by blast
  let ?s' = "s\<lparr>heap := (heap s)(fresh s := [tx],
                            allTransactions s := ((heap s)(fresh s := [tx])) (allTransactions s) @ [tx]),
          fresh := fresh s + 1,
          productHistory := (productHistory s)(pid \<mapsto> fresh s)\<rparr>"
  have 1: "ProductChain ?s' pid = Some [tx]"
    using ne by (simp add: ProductChain_def)
  have 2: "GlobalLog ?s' = GlobalLog s @ [tx]"
    using ne by (simp add: GlobalLog_def)
  have 3: "createProduct e' pid meta' own' ?s' = (Inl DuplicateProduct, ?s')"
    by (simp add: createProduct_unfold DuplicateProduct_def)
  have 4: "type tx = Manufacture \<and> owner tx = own"
    by (simp add: def)
  from eq 1 2 3 4 show ?thesis by blast
qed

theorem createProduct_then_duplicate_witness:
  "reachable SolanaService \<and> ProductChain SolanaService ''BIKE-001'' = None \<and>
   fst (createProduct (anchored ''s1'' 1000) ''BIKE-001'' None ''A'' SolanaService) =
     Inr \<lparr>receipt_signature = ''s1'', receipt_account = Some ''account''\<rparr> \<and>
   createProduct (anchored ''s9'' 9000) ''BIKE-001'' (Some ''again'') ''Z'' bike1 =
     (Inl (Error ''Product ID already exists''), bike1)"
proof -
  have n: "ProductChain SolanaService ''BIKE-001'' = None"
    by (simp add: ProductChain_def SolanaService_def)
  from createProduct_then_duplicate [OF reachable_scenario(1) n,
      of "anchored ''s1'' 1000" None "''A''" "anchored ''s9'' 9000" "Some ''again''" "''Z''"]
  have "createProduct (anchored ''s9'' 9000) ''BIKE-001'' (Some ''again'') ''Z'' bike1 =
     (Inl DuplicateProduct, bike1)"
    by (auto simp: bike1_def)
  moreover have "fst (createProduct (anchored ''s1'' 1000) ''BIKE-001'' None ''A'' SolanaService) =
     Inr \<lparr>receipt_signature = ''s1'', receipt_account = Some ''account''\<rparr>"
    by (simp add: createProduct_unfold SolanaService_def generateTransactionSignature_anchored
      Let_def new_array_def array_push_def) (simp add: anchored_def)
  ultimately show ?thesis
    using n reachable_scenario(1) by (simp add: DuplicateProduct_def)
qed


lemma Inr_mutation_cases:
  "fst (transferOwnership e pid cur nxt s) = Inr r \<Longrightarrow>
     \<exists>a. productHistory s pid = Some a \<and> heap s a \<noteq> [] \<and> owner (last (heap s a)) = cur"
  "fst (recordRepair e pid own meta s) = Inr r \<Longrightarrow>
     \<exists>a. productHistory s pid = Some a \<and> heap s a \<noteq> [] \<and> owner (last (heap s a)) = own"
  "fst (createProduct e pid meta own s) = Inr r \<Longrightarrow> productHistory s pid = None"
  by (auto simp: transferOwnership_unfold recordRepair_unfold createProduct_unfold Let_def
      split: option.splits if_splits)

lemma append_tx_views:
  assumes "store_ok s" and "productHistory s pid = Some a"
  shows "ProductChain (append_tx a tx s) pid = Some (heap s a @ [tx])"
    and "GlobalLog (append_tx a tx s) = GlobalLog s @ [tx]"
  using store_ok_addr [OF assms]
  by (simp_all add: ProductChain_def GlobalLog_def append_tx_simps heap_append_tx assms(2))

text \<open>
  Claim C8, as amended. A successful mutation does not return the appended record:
  it returns a receipt that holds the record's signature (and, for \<open>createProduct\<close>,
  the public key of a freshly generated key pair) and nothing else. The record
  itself is the new last element of the product's chain and of the GlobalLog.
\<close>

theorem mutation_returns_receipt:
  assumes "reachable s"
  shows "(createProduct e pid meta own s = (Inr r, s') \<longrightarrow>
           (\<exists>tx. ProductChain s' pid = Some [tx] \<and> GlobalLog s' = GlobalLog s @ [tx] \<and>
                 type tx = Manufacture \<and>
                 r = \<lparr>receipt_signature = signature tx,
                      receipt_account = Some (Keypair_generate e)\<rparr>)) \<and>
         (transferOwnership e pid cur nxt s = (Inr r, s') \<longrightarrow>
           (\<exists>c tx. ProductChain s pid = Some c \<and> ProductChain s' pid = Some (c @ [tx]) \<and>
                 GlobalLog s' = GlobalLog s @ [tx] \<and> type tx = Transfer \<and>
                 r = \<lparr>receipt_signature = signature tx, receipt_account = None\<rparr>)) \<and>
         (recordRepair e pid own meta s = (Inr r, s') \<longrightarrow>
           (\<exists>c tx. ProductChain s pid = Some c \<and> ProductChain s' pid = Some (c @ [tx]) \<and>
                 GlobalLog s' = GlobalLog s @ [tx] \<and> type tx = Repair \<and>
                 r = \<lparr>receipt_signature = signature tx, receipt_account = None\<rparr>))"
proof (intro conjI impI)
  note ok = reachable_store_ok [OF assms]
  {
    assume res: "createProduct e pid meta own s = (Inr r, s')"
    then have none: "productHistory s pid = None"
      using Inr_mutation_cases(3) [of e pid meta own s r] by simp
    have ne: "allTransactions s \<noteq> fresh s"
      using store_ok_log [OF ok] by simp
    from createProduct_success [OF none, of e own meta]
    obtain sig tx where
      def: "tx = \<lparr>type = Manufacture, timestamp = Date_now e, owner = own, previousOwner = None,
           metadata = Some (case meta of None \<Rightarrow> [] | Some m \<Rightarrow> m), productId = pid,
           signature = sig\<rparr>"
      and eq: "createProduct e pid meta own s =
       (Inr \<lparr>receipt_signature = sig, receipt_account = Some (Keypair_generate e)\<rparr>,
        s\<lparr>heap := (heap s)(fresh s := [tx],
                            allTransactions s := ((heap s)(fresh s := [tx])) (allTransactions s) @ [tx]),
          fresh := fresh s + 1,
          productHistory := (productHistory s)(pid \<mapsto> fresh s)\<rparr>)"
      by blast
    have sg: "signature tx = sig" "type tx = Manufacture" by (simp_all add: def)
    from res eq ne sg
    have "ProductChain s' pid = Some [tx] \<and> GlobalLog s' = GlobalLog s @ [tx] \<and>
                 type tx = Manufacture \<and>
                 r = \<lparr>receipt_signature = signature tx,
                      receipt_account = Some (Keypair_generate e)\<rparr>"
      by (auto simp: ProductChain_def GlobalLog_def)
    then show "\<exists>tx. ProductChain s' pid = Some [tx] \<and> GlobalLog s' = GlobalLog s @ [tx] \<and>
                 type tx = Manufacture \<and>
                 r = \<lparr>receipt_signature = signature tx,
                      receipt_account = Some (Keypair_generate e)\<rparr>" ..
  }
  {
    assume res: "transferOwnership e pid cur nxt s = (Inr r, s')"
    then obtain a where a: "productHistory s pid = Some a" "heap s a \<noteq> []"
        "owner (last (heap s a)) = cur"
      using Inr_mutation_cases(1) [of e pid cur nxt s r] by auto
    from transferOwnership_success [OF a, of e nxt]
    obtain sig tx where
      def: "tx = \<lparr>type = Transfer, timestamp = Date_now e, owner = nxt, previousOwner = Some cur,
           metadata = None, productId = pid, signature = sig\<rparr>"
      and eq: "transferOwnership e pid cur nxt s =
       (Inr \<lparr>receipt_signature = sig, receipt_account = None\<rparr>, append_tx a tx s)"
      by blast
    have sg: "signature tx = sig" "type tx = Transfer" by (simp_all add: def)
    from res eq sg append_tx_views [OF ok a(1), of tx] a(1)
    have "ProductChain s pid = Some (heap s a) \<and> ProductChain s' pid = Some (heap s a @ [tx]) \<and>
                 GlobalLog s' = GlobalLog s @ [tx] \<and> type tx = Transfer \<and>
                 r = \<lparr>receipt_signature = signature tx, receipt_account = None\<rparr>"
      by (auto simp: ProductChain_def)
    then show "\<exists>c tx. ProductChain s pid = Some c \<and> ProductChain s' pid = Some (c @ [tx]) \<and>
                 GlobalLog s' = GlobalLog s @ [tx] \<and> type tx = Transfer \<and>
                 r = \<lparr>receipt_signature = signature tx, receipt_account = None\<rparr>"
      by blast
  }
  {
    assume res: "recordRepair e pid own meta s = (Inr r, s')"
    then obtain a where a: "productHistory s pid = Some a" "heap s a \<noteq> []"
        "owner (last (heap s a)) = own"
      using Inr_mutation_cases(2) [of e pid own meta s r] by auto
    from recordRepair_success [OF a, of e meta]
    obtain sig tx where
      def: "tx = \<lparr>type = Repair, timestamp = Date_now e, owner = own, previousOwner = None,
           metadata = meta, productId = pid, signature = sig\<rparr>"
      and eq: "recordRepair e pid own meta s =
       (Inr \<lparr>receipt_signature = sig, receipt_account = None\<rparr>, append_tx a tx s)"
      by blast
    have sg: "signature tx = sig" "type tx = Repair" by (simp_all add: def)
    from res eq sg append_tx_views [OF ok a(1), of tx] a(1)
    have "ProductChain s pid = Some (heap s a) \<and> ProductChain s' pid = Some (heap s a @ [tx]) \<and>
                 GlobalLog s' = GlobalLog s @ [tx] \<and> type tx = Repair \<and>
                 r = \<lparr>receipt_signature = signature tx, receipt_account = None\<rparr>"
      by (auto simp: ProductChain_def)
    then show "\<exists>c tx. ProductChain s pid = Some c \<and> ProductChain s' pid = Some (c @ [tx]) \<and>
                 GlobalLog s' = GlobalLog s @ [tx] \<and> type tx = Repair \<and>
                 r = \<lparr>receipt_signature = signature tx, receipt_account = None\<rparr>"
      by blast
  }
qed

theorem mutation_returns_receipt_witness:
  "reachable bike1 \<and>
   transferOwnership (anchored ''s2'' 2000) ''BIKE-001'' ''A'' ''B'' bike1 =
     (Inr \<lparr>receipt_signature = ''s2'', receipt_account = None\<rparr>, bike2) \<and>
   (\<exists>c tx. ProductChain bike1 ''BIKE-001'' = Some c \<and>
      ProductChain bike2 ''BIKE-001'' = Some (c @ [tx]) \<and> signature tx = ''s2'')"
proof -
  have t: "transferOwnership (anchored ''s2'' 2000) ''BIKE-001'' ''A'' ''B'' bike1 =
     (Inr \<lparr>receipt_signature = ''s2'', receipt_account = None\<rparr>, bike2)"
    unfolding bike2_def
    by (simp add: bike1_eval transferOwnership_unfold generateTransactionSignature_anchored
        Let_def array_push_def)
  from mutation_returns_receipt [OF reachable_scenario(2),
      of "anchored ''s2'' 2000" "''BIKE-001''" None "''A''"
         "\<lparr>receipt_signature = ''s2'', receipt_account = None\<rparr>" bike2 "''A''" "''B''"] t
  have "\<exists>c tx. ProductChain bike1 ''BIKE-001'' = Some c \<and>
      ProductChain bike2 ''BIKE-001'' = Some (c @ [tx]) \<and>
      GlobalLog bike2 = GlobalLog bike1 @ [tx] \<and> type tx = Transfer \<and>
      \<lparr>receipt_signature = ''s2'', receipt_account = None\<rparr> =
        \<lparr>receipt_signature = signature tx, receipt_account = None\<rparr>"
    by blast
  then have "\<exists>c tx. ProductChain bike1 ''BIKE-001'' = Some c \<and>
      ProductChain bike2 ''BIKE-001'' = Some (c @ [tx]) \<and> signature tx = ''s2''"
    by auto
  with t reachable_scenario(2) show ?thesis by blast
qed


text \<open>
  Claim C8 as stated fails: the reply carries no type, timestamp or owner. Two calls
  that append different records (other owner, other time) return the same reply.
\<close>

theorem reply_is_not_the_event:
  "fst (createProduct (anchored ''s1'' 1000) ''BIKE-001'' None ''A'' SolanaService) =
     Inr \<lparr>receipt_signature = ''s1'', receipt_account = Some ''account''\<rparr> \<and>
   fst (createProduct (anchored ''s1'' 2000) ''BIKE-001'' None ''B'' SolanaService) =
     Inr \<lparr>receipt_signature = ''s1'', receipt_account = Some ''account''\<rparr> \<and>
   GlobalLog (snd (createProduct (anchored ''s1'' 1000) ''BIKE-001'' None ''A'' SolanaService)) \<noteq>
   GlobalLog (snd (createProduct (anchored ''s1'' 2000) ''BIKE-001'' None ''B'' SolanaService))"
  by (simp add: createProduct_unfold SolanaService_def generateTransactionSignature_anchored
      Let_def new_array_def array_push_def GlobalLog_def) (simp add: anchored_def)


lemma owned_result: "owned s p xs \<Longrightarrow> result_of p = xs"
  by (simp add: owned_def result_of_def)

lemma js_slice_last: "1 \<le> n \<Longrightarrow> js_slice xs (- n) = drop (length xs - nat n) xs"
  by (auto simp: js_slice_def Let_def max_def nat_diff_distrib' intro: arg_cong [where f = "\<lambda>k. drop k xs"])

lemma getRecentTransactions_result:
  "result_of (getRecentTransactions lim s) =
     rev (js_slice (GlobalLog s) (- (case lim of None \<Rightarrow> 10 | Some l \<Rightarrow> l)))"
  using getRecentTransactions_owned [of s lim] by (simp add: owned_result GlobalLog_def)

lemma getAllTransactions_result:
  "result_of (getAllTransactions (Some f) s) =
     sort_cmp (\<lambda>a b. timestamp b - timestamp a) (filter (tx_passes f) (GlobalLog s))"
  using getAllTransactions_owned [of s f] by (simp add: owned_result GlobalLog_def)

text \<open>
  Claim C6, as amended. For every limit \<open>n \<ge> 1\<close>, \<open>getRecentTransactions\<close> returns the
  \<open>min n total\<close> latest entries of the GlobalLog, latest first; they are in
  non-increasing timestamp order whenever the GlobalLog is in non-decreasing
  timestamp order. Without an argument the limit is 10.
\<close>

theorem getRecentTransactions_newest_first:
  assumes "1 \<le> n"
  shows "result_of (getRecentTransactions (Some n) s) = take (nat n) (rev (GlobalLog s)) \<and>
         length (result_of (getRecentTransactions (Some n) s)) = min (nat n) (length (GlobalLog s)) \<and>
         (sorted (map timestamp (GlobalLog s)) \<longrightarrow>
            sorted_wrt (\<lambda>a b. timestamp a \<ge> timestamp b)
              (result_of (getRecentTransactions (Some n) s))) \<and>
         getRecentTransactions None s = getRecentTransactions (Some 10) s"
proof -
  have r: "result_of (getRecentTransactions (Some n) s) = take (nat n) (rev (GlobalLog s))"
    using assms by (simp add: getRecentTransactions_result js_slice_last take_rev)
  have "sorted_wrt (\<lambda>a b. timestamp a \<ge> timestamp b) (take (nat n) (rev (GlobalLog s)))"
    if "sorted (map timestamp (GlobalLog s))"
  proof -
    from that have "sorted_wrt (\<lambda>a b. timestamp a \<ge> timestamp b) (rev (GlobalLog s))"
      by (simp add: sorted_map sorted_wrt_rev)
    then show ?thesis by (rule sorted_wrt_take)
  qed
  moreover have "getRecentTransactions None s = getRecentTransactions (Some 10) s"
    by (simp add: getRecentTransactions_def)
  ultimately show ?thesis
    by (simp add: r min.commute)
qed

theorem getRecentTransactions_newest_first_witness:
  "(1::int) \<le> 2 \<and> sorted (map timestamp (GlobalLog bike3)) \<and>
   map signature (result_of (getRecentTransactions (Some 2) bike3)) = [''s3'', ''s2''] \<and>
   sorted_wrt (\<lambda>a b. timestamp a \<ge> timestamp b) (result_of (getRecentTransactions (Some 2) bike3))"
proof -
  have s: "sorted (map timestamp (GlobalLog bike3))"
    by (simp add: GlobalLog_def bike3_eval)
  have n: "(1::int) \<le> 2" by simp
  have t: "map signature (take (nat 2) (rev (GlobalLog bike3))) = [''s3'', ''s2'']"
    by (simp add: GlobalLog_def bike3_eval)
  note th = getRecentTransactions_newest_first [OF n, of bike3]
  from th t have m: "map signature (result_of (getRecentTransactions (Some 2) bike3)) = [''s3'', ''s2'']"
    by simp
  from th s have "sorted_wrt (\<lambda>a b. timestamp a \<ge> timestamp b)
      (result_of (getRecentTransactions (Some 2) bike3))"
    by blast
  with n s m show ?thesis by blast
qed

text \<open>
  Claim C6 as stated fails twice. With limit 0 and one entry in the log the result
  has one entry, not \<open>min 0 1 = 0\<close>. And when the clock read less at a later append,
  the result (latest first) is not in non-increasing timestamp order.
\<close>

theorem getRecentTransactions_counterexample:
  "length (result_of (getRecentTransactions (Some 0) bike1)) = 1 \<and>
   min (nat 0) (length (GlobalLog bike1)) = 0 \<and>
   reachable skewed \<and>
   map timestamp (result_of (getRecentTransactions (Some 10) skewed)) = [500, 1000] \<and>
   \<not> sorted_wrt (\<lambda>a b. timestamp a \<ge> timestamp b)
       (result_of (getRecentTransactions (Some 10) skewed))"
  using reachable_scenario(4)
  by (simp add: getRecentTransactions_result js_slice_def GlobalLog_def bike1_eval skewed_eval)

text \<open>
  Claim C10. With limit 0, \<open>getRecentTransactions\<close> returns every entry of the
  GlobalLog, latest first: \<open>slice(-0)\<close> is \<open>slice(0)\<close>.
\<close>

theorem getRecentTransactions_limit_zero:
  "result_of (getRecentTransactions (Some 0) s) = rev (GlobalLog s)"
  by (simp add: getRecentTransactions_result js_slice_def)

theorem getRecentTransactions_limit_zero_witness:
  "map signature (result_of (getRecentTransactions (Some 0) bike3)) = [''s3'', ''s2'', ''s1'']"
  using getRecentTransactions_limit_zero [of bike3]
  by (simp add: GlobalLog_def bike3_eval)

text \<open>
  Claim C9. No query changes the store: after \<open>getProductHistory\<close>,
  \<open>getRecentTransactions\<close> or \<open>getAllTransactions\<close> every product chain and the GlobalLog
  are as before. The array \<open>getAllTransactions\<close> sorts is not the global array.
\<close>

theorem queries_leave_store:
  assumes "reachable s"
  shows "(\<forall>p. ProductChain (snd (getProductHistory pid s)) p = ProductChain s p) \<and>
         GlobalLog (snd (getProductHistory pid s)) = GlobalLog s \<and>
         (\<forall>p. ProductChain (snd (getRecentTransactions lim s)) p = ProductChain s p) \<and>
         GlobalLog (snd (getRecentTransactions lim s)) = GlobalLog s \<and>
         (\<forall>p. ProductChain (snd (getAllTransactions fo s)) p = ProductChain s p) \<and>
         GlobalLog (snd (getAllTransactions fo s)) = GlobalLog s \<and>
         fst (getAllTransactions fo s) \<noteq> allTransactions s"
proof -
  note ok = reachable_store_ok [OF assms]
  have "owned s (getAllTransactions fo s) (result_of (getAllTransactions fo s))"
    using getAllTransactions_owned [of s]
    by (cases fo) (auto simp: getAllTransactions_default owned_def result_of_def)
  then have "fresh s \<le> fst (getAllTransactions fo s)"
    by (simp add: owned_def)
  with store_ok_log [OF ok] have "fst (getAllTransactions fo s) \<noteq> allTransactions s"
    by simp
  then show ?thesis
    using extends_ProductChain [OF getRecentTransactions_extends ok]
      extends_GlobalLog [OF getRecentTransactions_extends ok]
      extends_ProductChain [OF getAllTransactions_extends ok]
      extends_GlobalLog [OF getAllTransactions_extends ok]
    by (simp add: getProductHistory_same)
qed

theorem queries_leave_store_witness:
  "reachable bike3 \<and>
   GlobalLog (snd (getAllTransactions None bike3)) = GlobalLog bike3 \<and>
   map signature (result_of (getAllTransactions None bike3)) = [''s3'', ''s2'', ''s1''] \<and>
   map signature (GlobalLog bike3) = [''s1'', ''s2'', ''s3'']"
proof -
  have "map signature (result_of (getAllTransactions None bike3)) = [''s3'', ''s2'', ''s1'']"
    by (simp add: getAllTransactions_default getAllTransactions_result tx_passes_def
        GlobalLog_def bike3_eval sort_cmp_def)
  moreover have "map signature (GlobalLog bike3) = [''s1'', ''s2'', ''s3'']"
    by (simp add: GlobalLog_def bike3_eval)
  ultimately show ?thesis
    using queries_leave_store [OF reachable_scenario(3), of "''BIKE-001''" None None] reachable_scenario(3)
    by simp
qed

text \<open>Case folding at some code units: \<open>U+00C9\<close>, the multiplication sign, \<open>Q\<close>, \<open>U+00DF\<close>.\<close>

lemma lower_char_Latin1:
  "lower_char (CHR 0xC9) = CHR 0xE9" "lower_char (CHR 0xD7) = CHR 0xD7"
  "lower_char (CHR ''Q'') = CHR ''q''" "lower_char (CHR 0xDF) = CHR 0xDF"
  by (simp_all add: lower_char_def upper_case_def lower_case_def)

text \<open>
  Claim C7, as amended. For filters whose strings have code units below 256 and
  whose time bounds are safe integers, \<open>getAllTransactions\<close> returns exactly the
  GlobalLog entries that satisfy all the filters whose value is truthy (a filter that
  is the empty string or 0 is ignored): the owner filter and the \<open>previousOwner\<close>
  filter as substring matches after \<open>toLowerCase\<close> on both sides, a record without
  \<open>previousOwner\<close> never passing the latter; the time bounds inclusive. The result
  is sorted by timestamp descending, entries with equal timestamps in GlobalLog
  order. Without an argument no filter applies.
\<close>

theorem getAllTransactions_filters_and_sorts:
  "mset (result_of (getAllTransactions (Some f) s)) =
     mset (filter (spec_matches (applied_filters f)) (GlobalLog s)) \<and>
   sorted_wrt (\<lambda>a b. timestamp a \<ge> timestamp b) (result_of (getAllTransactions (Some f) s)) \<and>
   (\<forall>t. filter (\<lambda>tx. timestamp tx = t) (result_of (getAllTransactions (Some f) s)) =
        filter (\<lambda>tx. timestamp tx = t) (filter (spec_matches (applied_filters f)) (GlobalLog s))) \<and>
   getAllTransactions None s =
     getAllTransactions (Some \<lparr>owner_filter = None, previousOwner_filter = None,
                               startTime = None, endTime = None\<rparr>) s"
proof -
  have p: "tx_passes f = spec_matches (applied_filters f)"
    by (rule ext) (rule tx_passes_spec)
  have r: "result_of (getAllTransactions (Some f) s) =
     sort_cmp (\<lambda>a b. timestamp b - timestamp a)
       (filter (spec_matches (applied_filters f)) (GlobalLog s))"
    using getAllTransactions_owned [of s f] by (simp add: owned_result GlobalLog_def p)
  show ?thesis
    unfolding r
    by (simp add: sort_cmp_mset sort_cmp_descending sort_cmp_stable getAllTransactions_default)
qed


theorem getAllTransactions_filters_and_sorts_witness:
  "map signature (result_of (getAllTransactions
      (Some \<lparr>owner_filter = Some ''b'', previousOwner_filter = None,
             startTime = None, endTime = None\<rparr>) bike3)) = [''s3'', ''s2''] \<and>
   map signature (filter (spec_matches (applied_filters
      \<lparr>owner_filter = Some ''b'', previousOwner_filter = None,
             startTime = None, endTime = None\<rparr>)) (GlobalLog bike3)) = [''s2'', ''s3'']"
proof -
  let ?f = "\<lparr>owner_filter = Some ''b'', previousOwner_filter = None,
             startTime = None, endTime = None\<rparr>"
  have m: "filter (spec_matches (applied_filters ?f)) (GlobalLog bike3) =
     [\<lparr>type = Transfer, timestamp = 2000, owner = ''B'', previousOwner = Some ''A'',
             metadata = None, productId = ''BIKE-001'', signature = ''s2''\<rparr>,
            \<lparr>type = Repair, timestamp = 3000, owner = ''B'', previousOwner = None,
             metadata = Some ''brake service'', productId = ''BIKE-001'', signature = ''s3''\<rparr>]"
    by (simp add: spec_matches_def applied_filters_def ci_contains_def toLowerCase_def
        lower_char_def upper_case_def lower_case_def GlobalLog_def bike3_eval sublist_code(3))
  have r: "result_of (getAllTransactions (Some ?f) bike3) =
     [\<lparr>type = Repair, timestamp = 3000, owner = ''B'', previousOwner = None,
             metadata = Some ''brake service'', productId = ''BIKE-001'', signature = ''s3''\<rparr>,
      \<lparr>type = Transfer, timestamp = 2000, owner = ''B'', previousOwner = Some ''A'',
             metadata = None, productId = ''BIKE-001'', signature = ''s2''\<rparr>]"
    by (simp add: getAllTransactions_result tx_passes_def toLowerCase_def
        lower_char_def upper_case_def lower_case_def GlobalLog_def bike3_eval sort_cmp_def)
  from getAllTransactions_filters_and_sorts [of ?f bike3] m r show ?thesis
    by simp
qed

text \<open>
  Claim C7 as stated fails for a filter that is present but falsy. With
  \<open>previousOwner: ''\<close> the result holds a \<open>Manufacture\<close> record, which has no
  \<open>previousOwner\<close>; with \<open>endTime: 0\<close> it holds a record whose timestamp is 1000.
\<close>

theorem getAllTransactions_counterexample:
  "result_of (getAllTransactions
      (Some \<lparr>owner_filter = None, previousOwner_filter = Some '''',
             startTime = None, endTime = None\<rparr>) bike1) = GlobalLog bike1 \<and>
   filter (spec_matches \<lparr>owner_filter = None, previousOwner_filter = Some '''',
             startTime = None, endTime = None\<rparr>) (GlobalLog bike1) = [] \<and>
   result_of (getAllTransactions
      (Some \<lparr>owner_filter = None, previousOwner_filter = None,
             startTime = None, endTime = Some (safe_integer 0)\<rparr>) bike1) = GlobalLog bike1 \<and>
   filter (spec_matches \<lparr>owner_filter = None, previousOwner_filter = None,
             startTime = None, endTime = Some (safe_integer 0)\<rparr>) (GlobalLog bike1) = [] \<and>
   GlobalLog bike1 \<noteq> []"
  by (simp add: getAllTransactions_result tx_passes_def spec_matches_def
        GlobalLog_def bike1_eval sort_cmp_def safe_integer_inverse)

section \<open>Further properties of the store\<close>

lemma createProduct_views:
  assumes ok: "store_ok s"
  shows "snd (createProduct e pid meta own s) = s \<or>
     (\<exists>tx. productHistory s pid = None \<and> productId tx = pid \<and> timestamp tx = Date_now e \<and>
        type tx = Manufacture \<and> owner tx = own \<and>
        GlobalLog (snd (createProduct e pid meta own s)) = GlobalLog s @ [tx] \<and>
        ProductChain (snd (createProduct e pid meta own s)) pid = Some [tx] \<and>
        (\<forall>q. q \<noteq> pid \<longrightarrow>
           ProductChain (snd (createProduct e pid meta own s)) q = ProductChain s q))"
proof (cases "productHistory s pid")
  case (Some a)
  then show ?thesis by (simp add: createProduct_duplicate)
next
  case None
  have ne: "allTransactions s \<noteq> fresh s"
    using store_ok_log [OF ok] by simp
  from createProduct_success [OF None, of e own meta]
  obtain sig tx where
    def: "tx = \<lparr>type = Manufacture, timestamp = Date_now e, owner = own, previousOwner = None,
           metadata = Some (case meta of None \<Rightarrow> [] | Some m \<Rightarrow> m), productId = pid,
           signature = sig\<rparr>"
    and eq: "createProduct e pid meta own s =
       (Inr \<lparr>receipt_signature = sig, receipt_account = Some (Keypair_generate e)\<rparr>,
        s\<lparr>heap := (heap s)(fresh s := [tx],
                            allTransactions s := ((heap s)(fresh s := [tx])) (allTransactions s) @ [tx]),
          fresh := fresh s + 1,
          productHistory := (productHistory s)(pid \<mapsto> fresh s)\<rparr>)"
    by blast
  have f: "productId tx = pid \<and> timestamp tx = Date_now e \<and> type tx = Manufacture \<and> owner tx = own"
    by (simp add: def)
  have g: "GlobalLog (snd (createProduct e pid meta own s)) = GlobalLog s @ [tx]"
    using ne by (simp add: eq GlobalLog_def)
  have c: "ProductChain (snd (createProduct e pid meta own s)) pid = Some [tx]"
    using ne by (simp add: eq ProductChain_def)
  have o: "ProductChain (snd (createProduct e pid meta own s)) q = ProductChain s q"
    if "q \<noteq> pid" for q
  proof (cases "productHistory s q")
    case None
    with that show ?thesis by (simp add: eq ProductChain_def)
  next
    case (Some b)
    with that store_ok_addr [OF ok Some] show ?thesis
      by (simp add: eq ProductChain_def)
  qed
  from None f g c o show ?thesis by blast
qed

lemma append_tx_other:
  assumes ok: "store_ok s" and a: "productHistory s pid = Some a" and q: "q \<noteq> pid"
  shows "ProductChain (append_tx a tx s) q = ProductChain s q"
proof (cases "productHistory s q")
  case None
  then show ?thesis by (simp add: ProductChain_def append_tx_simps)
next
  case (Some b)
  have "b \<noteq> a"
    using store_ok_inj [OF ok Some] a q by blast
  with store_ok_addr [OF ok Some] store_ok_addr [OF ok a] Some show ?thesis
    by (simp add: ProductChain_def append_tx_simps heap_append_tx)
qed

lemma transferOwnership_views:
  assumes ok: "store_ok s" and ch: "chains_ok s"
  shows "snd (transferOwnership e pid cur nxt s) = s \<or>
     (\<exists>c tx. ProductChain s pid = Some c \<and> c \<noteq> [] \<and> owner (last c) = cur \<and>
        productId tx = pid \<and> timestamp tx = Date_now e \<and>
        type tx = Transfer \<and> owner tx = nxt \<and> previousOwner tx = Some cur \<and>
        GlobalLog (snd (transferOwnership e pid cur nxt s)) = GlobalLog s @ [tx] \<and>
        ProductChain (snd (transferOwnership e pid cur nxt s)) pid = Some (c @ [tx]) \<and>
        (\<forall>q. q \<noteq> pid \<longrightarrow>
           ProductChain (snd (transferOwnership e pid cur nxt s)) q = ProductChain s q))"
proof (cases "productHistory s pid")
  case None
  then show ?thesis by (simp add: transferOwnership_unknown)
next
  case (Some a)
  have ne: "heap s a \<noteq> []"
    using chains_okD [OF ch Some] by (simp add: chain_ok_def)
  show ?thesis
  proof (cases "owner (last (heap s a)) = cur")
    case False
    with Some ne show ?thesis by (simp add: transferOwnership_mismatch)
  next
    case True
    from transferOwnership_success [OF Some ne True, of e nxt]
    obtain sig tx where
      def: "tx = \<lparr>type = Transfer, timestamp = Date_now e, owner = nxt, previousOwner = Some cur,
           metadata = None, productId = pid, signature = sig\<rparr>"
      and eq: "transferOwnership e pid cur nxt s =
       (Inr \<lparr>receipt_signature = sig, receipt_account = None\<rparr>, append_tx a tx s)"
      by blast
    have f: "productId tx = pid \<and> timestamp tx = Date_now e \<and>
        type tx = Transfer \<and> owner tx = nxt \<and> previousOwner tx = Some cur"
      by (simp add: def)
    have c: "ProductChain s pid = Some (heap s a)"
      using Some by (simp add: ProductChain_def)
    from c ne True f append_tx_views [OF ok Some, of tx] append_tx_other [OF ok Some, of _ tx]
    show ?thesis
      by (simp add: eq)
  qed
qed

lemma recordRepair_views:
  assumes ok: "store_ok s" and ch: "chains_ok s"
  shows "snd (recordRepair e pid own meta s) = s \<or>
     (\<exists>c tx. ProductChain s pid = Some c \<and> c \<noteq> [] \<and> owner (last c) = own \<and>
        productId tx = pid \<and> timestamp tx = Date_now e \<and>
        type tx = Repair \<and> owner tx = own \<and> metadata tx = meta \<and>
        GlobalLog (snd (recordRepair e pid own meta s)) = GlobalLog s @ [tx] \<and>
        ProductChain (snd (recordRepair e pid own meta s)) pid = Some (c @ [tx]) \<and>
        (\<forall>q. q \<noteq> pid \<longrightarrow>
           ProductChain (snd (recordRepair e pid own meta s)) q = ProductChain s q))"
proof (cases "productHistory s pid")
  case None
  then show ?thesis by (simp add: recordRepair_unknown)
next
  case (Some a)
  have ne: "heap s a \<noteq> []"
    using chains_okD [OF ch Some] by (simp add: chain_ok_def)
  show ?thesis
  proof (cases "owner (last (heap s a)) = own")
    case False
    with Some ne show ?thesis by (simp add: recordRepair_mismatch)
  next
    case True
    from recordRepair_success [OF Some ne True, of e meta]
    obtain sig tx where
      def: "tx = \<lparr>type = Repair, timestamp = Date_now e, owner = own, previousOwner = None,
           metadata = meta, productId = pid, signature = sig\<rparr>"
      and eq: "recordRepair e pid own meta s =
       (Inr \<lparr>receipt_signature = sig, receipt_account = None\<rparr>, append_tx a tx s)"
      by blast
    have f: "productId tx = pid \<and> timestamp tx = Date_now e \<and>
        type tx = Repair \<and> owner tx = own \<and> metadata tx = meta"
      by (simp add: def)
    have c: "ProductChain s pid = Some (heap s a)"
      using Some by (simp add: ProductChain_def)
    from c ne True f append_tx_views [OF ok Some, of tx] append_tx_other [OF ok Some, of _ tx]
    show ?thesis
      by (simp add: eq)
  qed
qed


lemma log_projects_step:
  assumes j: "log_projects s"
    and c: "ProductChain s pid = Some c \<or> (ProductChain s pid = None \<and> c = [])"
    and tx: "productId tx = pid"
    and g: "GlobalLog s' = GlobalLog s @ [tx]"
    and p: "ProductChain s' pid = Some (c @ [tx])"
    and o: "\<forall>q. q \<noteq> pid \<longrightarrow> ProductChain s' q = ProductChain s q"
  shows "log_projects s'"
  unfolding log_projects_def
proof
  fix q
  show "ProductChain s' q =
        (if filter (\<lambda>tx. productId tx = q) (GlobalLog s') = [] then None
         else Some (filter (\<lambda>tx. productId tx = q) (GlobalLog s')))"
  proof (cases "q = pid")
    case True
    have "filter (\<lambda>tx. productId tx = pid) (GlobalLog s) = c"
      using j [unfolded log_projects_def, rule_format, of pid] c
      by (auto split: if_splits)
    with True p tx g show ?thesis by simp
  next
    case False
    with o j [unfolded log_projects_def, rule_format, of q] tx g show ?thesis
      by auto
  qed
qed

lemma log_projects_frame:
  "log_projects s \<Longrightarrow> GlobalLog s' = GlobalLog s \<Longrightarrow>
   (\<And>p. ProductChain s' p = ProductChain s p) \<Longrightarrow> log_projects s'"
  by (simp add: log_projects_def)

lemma sequential_log_projects: "sequential s \<Longrightarrow> log_projects s"
proof (induction rule: sequential.induct)
  case init
  show ?case
    by (simp add: log_projects_def ProductChain_def GlobalLog_def SolanaService_def)
next
  case (create s e pid meta own)
  note ok = sequential_ok [OF create.hyps, THEN conjunct1]
  from createProduct_views [OF ok, of e pid meta own] show ?case
  proof
    assume "snd (createProduct e pid meta own s) = s"
    with create.IH show ?thesis by simp
  next
    assume "\<exists>tx. productHistory s pid = None \<and> productId tx = pid \<and> timestamp tx = Date_now e \<and>
        type tx = Manufacture \<and> owner tx = own \<and>
        GlobalLog (snd (createProduct e pid meta own s)) = GlobalLog s @ [tx] \<and>
        ProductChain (snd (createProduct e pid meta own s)) pid = Some [tx] \<and>
        (\<forall>q. q \<noteq> pid \<longrightarrow>
           ProductChain (snd (createProduct e pid meta own s)) q = ProductChain s q)"
    then obtain tx where "productHistory s pid = None" "productId tx = pid"
        "GlobalLog (snd (createProduct e pid meta own s)) = GlobalLog s @ [tx]"
        "ProductChain (snd (createProduct e pid meta own s)) pid = Some ([] @ [tx])"
        "\<forall>q. q \<noteq> pid \<longrightarrow>
           ProductChain (snd (createProduct e pid meta own s)) q = ProductChain s q"
      by auto
    then show ?thesis
      using log_projects_step [OF create.IH, of pid "[]" tx]
      by (simp add: ProductChain_def)
  qed
next
  case (transfer s e pid cur nxt)
  note ok = sequential_ok [OF transfer.hyps]
  from transferOwnership_views [OF ok [THEN conjunct1] ok [THEN conjunct2], of e pid cur nxt]
  show ?case
  proof
    assume "snd (transferOwnership e pid cur nxt s) = s"
    with transfer.IH show ?thesis by simp
  next
    assume "\<exists>c tx. ProductChain s pid = Some c \<and> c \<noteq> [] \<and> owner (last c) = cur \<and>
        productId tx = pid \<and> timestamp tx = Date_now e \<and>
        type tx = Transfer \<and> owner tx = nxt \<and> previousOwner tx = Some cur \<and>
        GlobalLog (snd (transferOwnership e pid cur nxt s)) = GlobalLog s @ [tx] \<and>
        ProductChain (snd (transferOwnership e pid cur nxt s)) pid = Some (c @ [tx]) \<and>
        (\<forall>q. q \<noteq> pid \<longrightarrow>
           ProductChain (snd (transferOwnership e pid cur nxt s)) q = ProductChain s q)"
    then obtain c tx where "ProductChain s pid = Some c" "productId tx = pid"
        "GlobalLog (snd (transferOwnership e pid cur nxt s)) = GlobalLog s @ [tx]"
        "ProductChain (snd (transferOwnership e pid cur nxt s)) pid = Some (c @ [tx])"
        "\<forall>q. q \<noteq> pid \<longrightarrow>
           ProductChain (snd (transferOwnership e pid cur nxt s)) q = ProductChain s q"
      by auto
    then show ?thesis
      using log_projects_step [OF transfer.IH, of pid c tx] by simp
  qed
next
  case (repair s e pid own meta)
  note ok = sequential_ok [OF repair.hyps]
  from recordRepair_views [OF ok [THEN conjunct1] ok [THEN conjunct2], of e pid own meta]
  show ?case
  proof
    assume "snd (recordRepair e pid own meta s) = s"
    with repair.IH show ?thesis by simp
  next
    assume "\<exists>c tx. ProductChain s pid = Some c \<and> c \<noteq> [] \<and> owner (last c) = own \<and>
        productId tx = pid \<and> timestamp tx = Date_now e \<and>
        type tx = Repair \<and> owner tx = own \<and> metadata tx = meta \<and>
        GlobalLog (snd (recordRepair e pid own meta s)) = GlobalLog s @ [tx] \<and>
        ProductChain (snd (recordRepair e pid own meta s)) pid = Some (c @ [tx]) \<and>
        (\<forall>q. q \<noteq> pid \<longrightarrow>
           ProductChain (snd (recordRepair e pid own meta s)) q = ProductChain s q)"
    then obtain c tx where "ProductChain s pid = Some c" "productId tx = pid"
        "GlobalLog (snd (recordRepair e pid own meta s)) = GlobalLog s @ [tx]"
        "ProductChain (snd (recordRepair e pid own meta s)) pid = Some (c @ [tx])"
        "\<forall>q. q \<noteq> pid \<longrightarrow>
           ProductChain (snd (recordRepair e pid own meta s)) q = ProductChain s q"
      by auto
    then show ?thesis
      using log_projects_step [OF repair.IH, of pid c tx] by simp
  qed
next
  case (history s pid)
  then show ?case by (simp add: getProductHistory_same)
next
  case (recent s lim)
  note ok = sequential_ok [OF recent.hyps, THEN conjunct1]
  show ?case
    using log_projects_frame [OF recent.IH
        extends_GlobalLog [OF getRecentTransactions_extends ok]
        extends_ProductChain [OF getRecentTransactions_extends ok]] .
next
  case (query s fo)
  note ok = sequential_ok [OF query.hyps, THEN conjunct1]
  show ?case
    using log_projects_frame [OF query.IH
        extends_GlobalLog [OF getAllTransactions_extends ok]
        extends_ProductChain [OF getAllTransactions_extends ok]] .
qed


lemma clocked_sequential: "clocked t s \<Longrightarrow> sequential s"
  by (induction rule: clocked.induct) (auto intro: sequential.intros)

lemma sorted_log_step:
  assumes "sorted (map timestamp (GlobalLog s)) \<and> (\<forall>tx\<in>set (GlobalLog s). timestamp tx \<le> t)"
    and "t \<le> u"
    and "GlobalLog s' = GlobalLog s \<or> (\<exists>tx. timestamp tx = u \<and> GlobalLog s' = GlobalLog s @ [tx])"
  shows "sorted (map timestamp (GlobalLog s')) \<and> (\<forall>tx\<in>set (GlobalLog s'). timestamp tx \<le> u)"
  using assms by (fastforce simp: sorted_append)

lemma clocked_sorted:
  "clocked t s \<Longrightarrow>
   sorted (map timestamp (GlobalLog s)) \<and> (\<forall>tx\<in>set (GlobalLog s). timestamp tx \<le> t)"
proof (induction rule: clocked.induct)
  case (init t)
  show ?case by (simp add: GlobalLog_def SolanaService_def)
next
  case (create t s e pid meta own)
  note ok = sequential_ok [OF clocked_sequential [OF create.hyps(1)], THEN conjunct1]
  have "GlobalLog (snd (createProduct e pid meta own s)) = GlobalLog s \<or>
     (\<exists>tx. timestamp tx = Date_now e \<and>
        GlobalLog (snd (createProduct e pid meta own s)) = GlobalLog s @ [tx])"
    using createProduct_views [OF ok, of e pid meta own] by auto
  with create.IH create.hyps(2) show ?case by (rule sorted_log_step)
next
  case (transfer t s e pid cur nxt)
  note ok = sequential_ok [OF clocked_sequential [OF transfer.hyps(1)]]
  have "GlobalLog (snd (transferOwnership e pid cur nxt s)) = GlobalLog s \<or>
     (\<exists>tx. timestamp tx = Date_now e \<and>
        GlobalLog (snd (transferOwnership e pid cur nxt s)) = GlobalLog s @ [tx])"
    using transferOwnership_views [OF ok [THEN conjunct1] ok [THEN conjunct2], of e pid cur nxt]
    by auto
  with transfer.IH transfer.hyps(2) show ?case by (rule sorted_log_step)
next
  case (repair t s e pid own meta)
  note ok = sequential_ok [OF clocked_sequential [OF repair.hyps(1)]]
  have "GlobalLog (snd (recordRepair e pid own meta s)) = GlobalLog s \<or>
     (\<exists>tx. timestamp tx = Date_now e \<and>
        GlobalLog (snd (recordRepair e pid own meta s)) = GlobalLog s @ [tx])"
    using recordRepair_views [OF ok [THEN conjunct1] ok [THEN conjunct2], of e pid own meta]
    by auto
  with repair.IH repair.hyps(2) show ?case by (rule sorted_log_step)
next
  case (history t s pid)
  then show ?case by (simp add: getProductHistory_same)
next
  case (recent t s lim)
  note ok = sequential_ok [OF clocked_sequential [OF recent.hyps], THEN conjunct1]
  from recent.IH show ?case
    by (simp add: extends_GlobalLog [OF getRecentTransactions_extends ok])
next
  case (query t s fo)
  note ok = sequential_ok [OF clocked_sequential [OF query.hyps], THEN conjunct1]
  from query.IH show ?case
    by (simp add: extends_GlobalLog [OF getAllTransactions_extends ok])
qed

text \<open>
  When the clock never runs backwards between calls, the GlobalLog is in
  non-decreasing timestamp order, and \<open>getRecentTransactions\<close> returns its entries in
  non-increasing timestamp order, whatever the limit.
\<close>

theorem monotone_clock_recent_descending:
  assumes "clocked t s"
  shows "sorted (map timestamp (GlobalLog s)) \<and>
         sorted_wrt (\<lambda>a b. timestamp a \<ge> timestamp b) (result_of (getRecentTransactions lim s))"
proof -
  from clocked_sorted [OF assms] have s: "sorted (map timestamp (GlobalLog s))" ..
  then have r: "sorted_wrt (\<lambda>a b. timestamp a \<ge> timestamp b) (rev (GlobalLog s))"
    by (simp add: sorted_map sorted_wrt_rev)
  have "sorted_wrt (\<lambda>a b. timestamp a \<ge> timestamp b) (rev (js_slice (GlobalLog s) k))" for k
    using r by (simp add: js_slice_def Let_def rev_drop)
  with s show ?thesis
    by (simp add: getRecentTransactions_result)
qed

lemma clocked_bike3: "clocked 3000 bike3"
proof -
  have 1: "clocked 1000 bike1"
    using clocked.create [OF clocked.init [of 0], of "anchored ''s1'' 1000" "''BIKE-001''" None "''A''"]
    by (simp add: bike1_def anchored_def)
  have 2: "clocked 2000 bike2"
    using clocked.transfer [OF 1, of "anchored ''s2'' 2000" "''BIKE-001''" "''A''" "''B''"]
    by (simp add: bike2_def anchored_def)
  show ?thesis
    using clocked.repair [OF 2, of "anchored ''s3'' 3000" "''BIKE-001''" "''B''" "Some ''brake service''"]
    by (simp add: bike3_def anchored_def)
qed

theorem monotone_clock_recent_descending_witness:
  "clocked 3000 bike3 \<and> map timestamp (GlobalLog bike3) = [1000, 2000, 3000] \<and>
   sorted_wrt (\<lambda>a b. timestamp a \<ge> timestamp b) (result_of (getRecentTransactions None bike3))"
proof -
  have "map timestamp (GlobalLog bike3) = [1000, 2000, 3000]"
    by (simp add: GlobalLog_def bike3_eval)
  with monotone_clock_recent_descending [OF clocked_bike3, of None] clocked_bike3
  show ?thesis by blast
qed

text \<open>
  The GlobalLog holds every chain in its order: when no calls overlap, a product's chain
  is exactly the GlobalLog entries with that product id, and the GlobalLog has no
  entry for a product without a chain.
\<close>

theorem product_chain_is_log_projection:
  assumes "sequential s"
  shows "(ProductChain s p = Some c \<longrightarrow> c = filter (\<lambda>tx. productId tx = p) (GlobalLog s)) \<and>
         (ProductChain s p = None \<longrightarrow> filter (\<lambda>tx. productId tx = p) (GlobalLog s) = [])"
  using sequential_log_projects [OF assms, unfolded log_projects_def, rule_format, of p]
  by (auto split: if_splits)

theorem product_chain_is_log_projection_witness:
  "sequential skewed \<and>
   map signature (GlobalLog skewed) = [''s1'', ''s2''] \<and>
   map_option (map signature) (ProductChain skewed ''BIKE-002'') = Some [''s2''] \<and>
   map signature (filter (\<lambda>tx. productId tx = ''BIKE-002'') (GlobalLog skewed)) = [''s2''] \<and>
   ProductChain skewed ''BIKE-003'' = None"
proof -
  have c: "ProductChain skewed ''BIKE-002'' =
      Some [\<lparr>type = Manufacture, timestamp = 500, owner = ''A'', previousOwner = None,
             metadata = Some [], productId = ''BIKE-002'', signature = ''s2''\<rparr>]"
    by (simp add: ProductChain_def skewed_eval)
  have n: "ProductChain skewed ''BIKE-003'' = None"
    by (simp add: ProductChain_def skewed_eval)
  have g: "map signature (GlobalLog skewed) = [''s1'', ''s2'']"
    by (simp add: GlobalLog_def skewed_eval)
  from product_chain_is_log_projection [OF sequential_skewed, of "''BIKE-002''"] c
  have "filter (\<lambda>tx. productId tx = ''BIKE-002'') (GlobalLog skewed) =
      [\<lparr>type = Manufacture, timestamp = 500, owner = ''A'', previousOwner = None,
             metadata = Some [], productId = ''BIKE-002'', signature = ''s2''\<rparr>]"
    by simp
  with c n g sequential_skewed show ?thesis by simp
qed

text \<open>
  A product id without a chain: \<open>transferOwnership\<close>, \<open>recordRepair\<close> and
  \<open>getProductHistory\<close> fail with \<open>UnknownProduct\<close> and leave the store as it was.
\<close>

theorem unknown_product_rejected:
  assumes "ProductChain s pid = None"
  shows "transferOwnership e pid cur nxt s = (Inl UnknownProduct, s) \<and>
         recordRepair e pid own meta s = (Inl UnknownProduct, s) \<and>
         getProductHistory pid s = (Inl UnknownProduct, s)"
  using assms
  by (simp add: ProductChain_def transferOwnership_unknown recordRepair_unknown
      getProductHistory_def UnknownProduct_def)

theorem unknown_product_rejected_witness:
  "ProductChain bike1 ''BIKE-002'' = None \<and>
   getProductHistory ''BIKE-002'' bike1 = (Inl (Error ''Product ID does not exist''), bike1)"
proof -
  have n: "ProductChain bike1 ''BIKE-002'' = None"
    by (simp add: ProductChain_def bike1_eval)
  from unknown_product_rejected [OF n] n show ?thesis
    by (simp add: UnknownProduct_def)
qed

text \<open>
  A transfer by the current owner makes the chain one record longer and the next owner
  the current one; a repair by the current owner makes it one record longer and keeps
  the current owner.
\<close>

theorem current_owner_after_mutation:
  assumes "reachable s" and "ProductChain s pid = Some c"
  shows "(\<exists>c'. ProductChain (snd (transferOwnership e pid (owner (last c)) nxt s)) pid = Some c' \<and>
            length c' = length c + 1 \<and> owner (last c') = nxt) \<and>
         (\<exists>c'. ProductChain (snd (recordRepair e pid (owner (last c)) meta s)) pid = Some c' \<and>
            length c' = length c + 1 \<and> owner (last c') = owner (last c))"
proof -
  note ok = reachable_store_ok [OF assms(1)]
  from assms(2) obtain a where a: "productHistory s pid = Some a" and c: "c = heap s a"
    by (auto simp: ProductChain_def)
  have ne: "heap s a \<noteq> []"
    using reachable_nonempty [OF assms] c by simp
  from transferOwnership_success [OF a ne refl, of e nxt]
  obtain sig tx where
    def: "tx = \<lparr>type = Transfer, timestamp = Date_now e, owner = nxt,
           previousOwner = Some (owner (last (heap s a))),
           metadata = None, productId = pid, signature = sig\<rparr>"
    and eq: "transferOwnership e pid (owner (last (heap s a))) nxt s =
       (Inr \<lparr>receipt_signature = sig, receipt_account = None\<rparr>, append_tx a tx s)"
    by blast
  have 1: "\<exists>c'. ProductChain (snd (transferOwnership e pid (owner (last c)) nxt s)) pid = Some c' \<and>
            length c' = length c + 1 \<and> owner (last c') = nxt"
    using append_tx_views(1) [OF ok a, of tx]
    by (simp add: c eq) (simp add: def)
  from recordRepair_success [OF a ne refl, of e meta]
  obtain sig' tx' where
    def': "tx' = \<lparr>type = Repair, timestamp = Date_now e, owner = owner (last (heap s a)),
           previousOwner = None, metadata = meta, productId = pid, signature = sig'\<rparr>"
    and eq': "recordRepair e pid (owner (last (heap s a))) meta s =
       (Inr \<lparr>receipt_signature = sig', receipt_account = None\<rparr>, append_tx a tx' s)"
    by blast
  have 2: "\<exists>c'. ProductChain (snd (recordRepair e pid (owner (last c)) meta s)) pid = Some c' \<and>
            length c' = length c + 1 \<and> owner (last c') = owner (last c)"
    using append_tx_views(1) [OF ok a, of tx']
    by (simp add: c eq') (simp add: def')
  from 1 2 show ?thesis ..
qed

lemma ProductChain_bike2:
  "ProductChain bike2 ''BIKE-001'' =
     Some [\<lparr>type = Manufacture, timestamp = 1000, owner = ''A'', previousOwner = None,
             metadata = Some [], productId = ''BIKE-001'', signature = ''s1''\<rparr>,
            \<lparr>type = Transfer, timestamp = 2000, owner = ''B'', previousOwner = Some ''A'',
             metadata = None, productId = ''BIKE-001'', signature = ''s2''\<rparr>]"
  by (simp add: ProductChain_def bike2_eval)

lemma ProductChain_bike3:
  "ProductChain bike3 ''BIKE-001'' =
     Some [\<lparr>type = Manufacture, timestamp = 1000, owner = ''A'', previousOwner = None,
             metadata = Some [], productId = ''BIKE-001'', signature = ''s1''\<rparr>,
            \<lparr>type = Transfer, timestamp = 2000, owner = ''B'', previousOwner = Some ''A'',
             metadata = None, productId = ''BIKE-001'', signature = ''s2''\<rparr>,
            \<lparr>type = Repair, timestamp = 3000, owner = ''B'', previousOwner = None,
             metadata = Some ''brake service'', productId = ''BIKE-001'', signature = ''s3''\<rparr>]"
  by (simp add: ProductChain_def bike3_eval)

theorem current_owner_after_mutation_witness:
  "reachable bike2 \<and>
   map_option (map owner) (ProductChain bike2 ''BIKE-001'') = Some [''A'', ''B''] \<and>
   map_option (map owner) (ProductChain bike3 ''BIKE-001'') = Some [''A'', ''B'', ''B'']"
proof -
  from current_owner_after_mutation [OF reachable_bike2 ProductChain_bike2,
      of "anchored ''s3'' 3000" "''C''" "Some ''brake service''"]
  have "\<exists>c'. ProductChain bike3 ''BIKE-001'' = Some c' \<and> owner (last c') = ''B''"
    by (auto simp: bike3_def)
  with reachable_bike2 show ?thesis
    by (simp add: ProductChain_bike2 ProductChain_bike3)
qed

text \<open>\<open>getProductHistory\<close> of a product with a chain returns the chain, oldest record first.\<close>

theorem getProductHistory_returns_chain:
  assumes "ProductChain s pid = Some c"
  shows "\<exists>a. getProductHistory pid s = (Inr a, s) \<and> result_of (a, s) = c"
  using assms by (auto simp: ProductChain_def getProductHistory_def result_of_def)

theorem getProductHistory_returns_chain_witness:
  "\<exists>a. getProductHistory ''BIKE-001'' bike3 = (Inr a, bike3) \<and>
       map type (result_of (a, bike3)) = [Manufacture, Transfer, Repair]"
  using getProductHistory_returns_chain [OF ProductChain_bike3] by auto

text \<open>
  The scenario of the specification: after the creation the history has length 1 and
  owner \<open>A\<close>; after the transfer length 2 and owner \<open>B\<close>; a transfer by \<open>A\<close> then fails
  with \<open>OwnershipMismatch\<close>; after the repair the history has length 3, owner still
  \<open>B\<close>; the query for owner \<open>"b"\<close> returns the repair and the transfer, latest first.
\<close>

theorem bike_scenario:
  "map_option length (ProductChain bike1 ''BIKE-001'') = Some 1 \<and>
   map_option (\<lambda>c. owner (last c)) (ProductChain bike1 ''BIKE-001'') = Some ''A'' \<and>
   map_option length (ProductChain bike2 ''BIKE-001'') = Some 2 \<and>
   map_option (\<lambda>c. owner (last c)) (ProductChain bike2 ''BIKE-001'') = Some ''B'' \<and>
   transferOwnership (anchored ''s9'' 2500) ''BIKE-001'' ''A'' ''C'' bike2 =
     (Inl (OwnershipMismatch ''B'' ''A''), bike2) \<and>
   map_option length (ProductChain bike3 ''BIKE-001'') = Some 3 \<and>
   map_option (\<lambda>c. owner (last c)) (ProductChain bike3 ''BIKE-001'') = Some ''B'' \<and>
   map_option (\<lambda>c. metadata (last c)) (ProductChain bike3 ''BIKE-001'') = Some (Some ''brake service'') \<and>
   map type (result_of (getAllTransactions
      (Some \<lparr>owner_filter = Some ''b'', previousOwner_filter = None,
             startTime = None, endTime = None\<rparr>) bike3)) = [Repair, Transfer]"
proof -
  have 1: "ProductChain bike1 ''BIKE-001'' =
     Some [\<lparr>type = Manufacture, timestamp = 1000, owner = ''A'', previousOwner = None,
             metadata = Some [], productId = ''BIKE-001'', signature = ''s1''\<rparr>]"
    by (simp add: ProductChain_def bike1_eval)
  have t: "transferOwnership (anchored ''s9'' 2500) ''BIKE-001'' ''A'' ''C'' bike2 =
     (Inl (OwnershipMismatch ''B'' ''A''), bike2)"
    by (simp add: transferOwnership_unfold bike2_eval OwnershipMismatch_def Let_def)
  have q: "map type (result_of (getAllTransactions
      (Some \<lparr>owner_filter = Some ''b'', previousOwner_filter = None,
             startTime = None, endTime = None\<rparr>) bike3)) = [Repair, Transfer]"
    by (simp add: getAllTransactions_result tx_passes_def toLowerCase_def
        lower_char_def upper_case_def lower_case_def GlobalLog_def bike3_eval sort_cmp_def)
  from 1 t q show ?thesis
    by (simp add: ProductChain_bike2 ProductChain_bike3)
qed


end
